theory Spec2Isabelle
  imports Complex_Main
begin

section \<open>JavaScript strings and numbers\<close>

text \<open>
  A JavaScript string is a sequence of UTF-16 code units; a code unit is modelled as a
  natural number. \<open>js\<close> turns an ASCII literal into such a sequence.
\<close>

type_synonym jsstring = "nat list"

definition js :: "string \<Rightarrow> jsstring" where
  "js s = map of_char s"

text \<open>
  The characters matched by \<^verbatim>\<open>\s\<close> in a regular expression and removed by
  \<^verbatim>\<open>String.prototype.trim\<close>: TAB, LF, VT, FF, CR, SP, NBSP, U+1680, U+2000 to U+200A,
  U+2028, U+2029, U+202F, U+205F, U+3000 and U+FEFF.
\<close>

definition isWhiteSpace :: "nat \<Rightarrow> bool" where
  "isWhiteSpace c \<longleftrightarrow>
     c = 9 \<or> c = 10 \<or> c = 11 \<or> c = 12 \<or> c = 13 \<or> c = 32 \<or> c = 160 \<or> c = 5760 \<or>
     (8192 \<le> c \<and> c \<le> 8202) \<or> c = 8232 \<or> c = 8233 \<or> c = 8239 \<or> c = 8287 \<or>
     c = 12288 \<or> c = 65279"

text \<open>The character class \<^verbatim>\<open>[\s,\t]\<close> of \<^verbatim>\<open>handleIncomingLine\<close>.\<close>

definition isSeparator :: "nat \<Rightarrow> bool" where
  "isSeparator c \<longleftrightarrow> isWhiteSpace c \<or> c = 44 \<or> c = 9"

text \<open>\<^verbatim>\<open>s.trim()\<close>.\<close>

definition trim :: "jsstring \<Rightarrow> jsstring" where
  "trim s = rev (dropWhile isWhiteSpace (rev (dropWhile isWhiteSpace s)))"

text \<open>\<^verbatim>\<open>s.startsWith('#')\<close>.\<close>

definition startsWithHash :: "jsstring \<Rightarrow> bool" where
  "startsWithHash s = (case s of [] \<Rightarrow> False | c # _ \<Rightarrow> c = 35)"

text \<open>
  \<^verbatim>\<open>s.replace(/^\s*#+\s*/, '')\<close>: the pattern is anchored at the start of the string, so
  it matches when the first character after the leading white space is \<^verbatim>\<open>#\<close>, and then
  takes that white space, every \<^verbatim>\<open>#\<close> that follows and the white space after them.
  A string without a match is returned as it is.
\<close>

definition replaceHeaderPrefix :: "jsstring \<Rightarrow> jsstring" where
  "replaceHeaderPrefix s =
     (let r = dropWhile isWhiteSpace s
      in if startsWithHash r
         then dropWhile isWhiteSpace (dropWhile (\<lambda>c. c = 35) r)
         else s)"

text \<open>
  \<^verbatim>\<open>s.split(/[\s,\t]+/)\<close>: the pieces between the maximal runs of separator characters. A
  run at the start or at the end of the string leaves an empty piece there, and the empty
  string gives one empty piece.
\<close>

function splitSeparators :: "jsstring \<Rightarrow> jsstring list" where
  "splitSeparators s =
     (let piece = takeWhile (\<lambda>c. \<not> isSeparator c) s;
          rest = dropWhile (\<lambda>c. \<not> isSeparator c) s
      in if rest = [] then [piece]
         else piece # splitSeparators (dropWhile isSeparator rest))"
  by pat_completeness auto
termination
proof (relation "measure length")
  show "wf (measure length)" by simp
next
  fix s :: jsstring and piece rest
  assume r: "rest = dropWhile (\<lambda>c. \<not> isSeparator c) s" and ne: "rest \<noteq> []"
  from ne obtain c cs where rc: "rest = c # cs" by (cases rest) auto
  have "length (dropWhile isSeparator rest) \<le> length rest"
    by (rule length_dropWhile_le)
  moreover have "isSeparator c"
    using r rc by (metis (mono_tags, lifting) dropWhile_eq_Cons_conv)
  then have "length (dropWhile isSeparator rest) \<le> length cs"
    using rc by (simp add: length_dropWhile_le)
  moreover have "length rest \<le> length s"
    unfolding r by (rule length_dropWhile_le)
  ultimately show "(dropWhile isSeparator rest, s) \<in> measure length"
    using rc by simp
qed

declare splitSeparators.simps [simp del]

text \<open>\<^verbatim>\<open>.filter(Boolean)\<close> on an array of strings keeps the non-empty ones.\<close>

definition filterBoolean :: "jsstring list \<Rightarrow> jsstring list" where
  "filterBoolean xs = filter (\<lambda>s. s \<noteq> []) xs"

text \<open>
  A JavaScript number as far as the parser tells values apart: a finite value, or one of
  the three non-finite ones. \<^verbatim>\<open>Number.isFinite\<close> holds of the finite values only.
\<close>

datatype number = Finite real | PosInfinity | NegInfinity | NaN

fun isFinite :: "number \<Rightarrow> bool" where
  "isFinite (Finite _) = True"
| "isFinite _ = False"


section \<open>The data store\<close>

text \<open>
  The store behind \<^verbatim>\<open>useDataStore()\<close> (\<^verbatim>\<open>src/store/dataStore\<close>) is used by the
  application but is not among the source files. The specification describes it as a
  channel registry, a ring buffer and a viewport with momentum; the record below holds
  that state: the channel names, the capacity \<open>C\<close>, one backing array of \<open>C\<close> slots per
  channel, the write cursor, the count \<open>T\<close> of rows ever written, and the viewport state
  (cursor, window size, frozen flag, and the velocity of a momentum scroll while one is in
  flight).
\<close>

record store =
  seriesNames :: "jsstring list"
  capacity :: nat
  buffers :: "number list list"
  writeCursor :: nat
  totalWritten :: nat
  cursor :: real
  windowSize :: nat
  frozen :: bool
  momentum :: "real option"

text \<open>
  Modelled from the spec: the initial state of the store of \<^verbatim>\<open>src/store/dataStore\<close>,
  which is not among the source files. No channel is registered and nothing is stored; an
  invalid capacity is clamped to the nearest valid one, the window is at most the capacity,
  and the view is live.
\<close>

definition initStore :: "nat \<Rightarrow> nat \<Rightarrow> store" where
  "initStore c w =
     \<lparr>seriesNames = [], capacity = max 1 c, buffers = [], writeCursor = 0,
      totalWritten = 0, cursor = 0, windowSize = min w (max 1 c), frozen = False,
      momentum = None\<rparr>"

text \<open>
  Modelled from the spec: \<^verbatim>\<open>setSeries\<close> of the absent store. Empty input is ignored; a
  name list equal to the current one is a no-op; a different one clears all stored rows
  and resets the viewport to live mode.
\<close>

definition setSeries :: "jsstring list \<Rightarrow> store \<Rightarrow> store" where
  "setSeries names s =
     (if names = [] \<or> names = seriesNames s then s
      else s\<lparr>seriesNames := names,
             buffers := replicate (length names) (replicate (capacity s) NaN),
             writeCursor := 0, totalWritten := 0,
             cursor := 0, frozen := False, momentum := None\<rparr>)"

text \<open>
  Modelled from the spec: \<^verbatim>\<open>append\<close> of the absent store. A row whose length is not the
  channel count is dropped. Otherwise the row is written at the write cursor, one value
  per channel, which overwrites the oldest row once the buffer is full; the write cursor
  advances cyclically and \<open>T\<close> is incremented. In live mode the cursor is 0 after the
  call.
\<close>

definition appendRow :: "number list \<Rightarrow> store \<Rightarrow> store" where
  "appendRow values s =
     (if length values \<noteq> length (seriesNames s) then s
      else s\<lparr>buffers := map2 (\<lambda>b v. b[writeCursor s := v]) (buffers s) values,
             writeCursor := (writeCursor s + 1) mod capacity s,
             totalWritten := totalWritten s + 1,
             cursor := (if frozen s then cursor s else 0)\<rparr>)"

text \<open>
  Modelled from the spec: how the rows held by the absent store are read back. The buffer
  holds \<open>min T C\<close> rows; the oldest has global index \<open>T - min T C\<close>; the row written \<open>k\<close>
  appends ago lies \<open>k\<close> slots behind the write cursor, cyclically.
\<close>

definition retainedCount :: "store \<Rightarrow> nat" where
  "retainedCount s = min (totalWritten s) (capacity s)"

definition oldestIndex :: "store \<Rightarrow> nat" where
  "oldestIndex s = totalWritten s - retainedCount s"

definition slotOf :: "store \<Rightarrow> nat \<Rightarrow> nat" where
  "slotOf s g = (writeCursor s + capacity s - (totalWritten s - g)) mod capacity s"

definition rowAt :: "store \<Rightarrow> nat \<Rightarrow> number list" where
  "rowAt s g = map (\<lambda>b. b ! slotOf s g) (buffers s)"

definition retainedRows :: "store \<Rightarrow> (nat \<times> number list) list" where
  "retainedRows s = map (\<lambda>g. (g, rowAt s g)) [oldestIndex s ..< totalWritten s]"

definition channelRows :: "store \<Rightarrow> nat \<Rightarrow> number list" where
  "channelRows s ch = map (\<lambda>g. (buffers s ! ch) ! slotOf s g) [oldestIndex s ..< totalWritten s]"

text \<open>A run of \<^verbatim>\<open>append\<close> calls, in order.\<close>

definition appendAll :: "number list list \<Rightarrow> store \<Rightarrow> store" where
  "appendAll rows s = foldl (\<lambda>t r. appendRow r t) s rows"

text \<open>
  What holds of the store after the rows \<open>acc\<close> have been written to it since it was last
  cleared: every backing array has \<open>C\<close> slots, the write cursor is \<open>T mod C\<close>, and each
  retained global index reads back the row written under it.
\<close>

definition ringInv :: "store \<Rightarrow> number list list \<Rightarrow> bool" where
  "ringInv s acc \<longleftrightarrow>
     0 < capacity s
     \<and> length (buffers s) = length (seriesNames s)
     \<and> (\<forall>b\<in>set (buffers s). length b = capacity s)
     \<and> writeCursor s = totalWritten s mod capacity s
     \<and> totalWritten s = length acc
     \<and> (\<forall>g. oldestIndex s \<le> g \<and> g < totalWritten s \<longrightarrow> rowAt s g = acc ! g)"

text \<open>
  Modelled from the spec: the viewport and momentum operations of the absent store.
  \<^verbatim>\<open>setViewPortCursor\<close> clamps into \<open>[0, max 0 (min T C - windowSize)]\<close>. Entering frozen
  mode keeps the cursor; leaving it resets the cursor to 0 and cancels momentum.
  \<^verbatim>\<open>stopMomentum\<close> cancels a scroll in flight and is idempotent; \<^verbatim>\<open>startMomentum\<close>
  replaces any scroll in flight by one with the given velocity.
\<close>

definition getViewPortCursor :: "store \<Rightarrow> real" where
  "getViewPortCursor s = cursor s"

definition maxCursor :: "store \<Rightarrow> real" where
  "maxCursor s = max 0 (real (retainedCount s) - real (windowSize s))"

definition setViewPortCursor :: "real \<Rightarrow> store \<Rightarrow> store" where
  "setViewPortCursor v s = s\<lparr>cursor := max 0 (min v (maxCursor s))\<rparr>"

definition getFrozen :: "store \<Rightarrow> bool" where
  "getFrozen s = frozen s"

definition setFrozen :: "bool \<Rightarrow> store \<Rightarrow> store" where
  "setFrozen b s =
     (if b then s\<lparr>frozen := True\<rparr>
      else s\<lparr>frozen := False, cursor := 0, momentum := None\<rparr>)"

definition stopMomentum :: "store \<Rightarrow> store" where
  "stopMomentum s = s\<lparr>momentum := None\<rparr>"

definition startMomentum :: "real \<Rightarrow> store \<Rightarrow> store" where
  "startMomentum v s = s\<lparr>momentum := Some v\<rparr>"

section \<open>The application's handlers (App.tsx)\<close>

text \<open>
  The methods the handlers invoke on the store that change it, and what each does to the
  store. The viewport quantities (cursor, pan delta, velocity) are taken as real numbers.
\<close>

datatype store_call =
    SetSeries "jsstring list"
  | Append "number list"
  | StopMomentum
  | SetFrozen bool
  | SetViewPortCursor real
  | StartMomentum real

fun exec :: "store_call \<Rightarrow> store \<Rightarrow> store" where
  "exec (SetSeries names) s = setSeries names s"
| "exec (Append values) s = appendRow values s"
| "exec StopMomentum s = stopMomentum s"
| "exec (SetFrozen b) s = setFrozen b s"
| "exec (SetViewPortCursor v) s = setViewPortCursor v s"
| "exec (StartMomentum v) s = startMomentum v s"

text \<open>
  What the handlers of \<^verbatim>\<open>App\<close> act on: the \<^verbatim>\<open>lastLine\<close> state, the lines handed to
  \<^verbatim>\<open>consoleStore.addIncoming\<close> (the console store is not among the source files; only
  the lines it is given are recorded), the data store, and the calls made on the data
  store so far, in order.
\<close>

record app =
  lastLine :: jsstring
  consoleIncoming :: "jsstring list"
  dataStore :: store
  storeCalls :: "store_call list"

text \<open>A method call on the store: it acts on the store and is recorded.\<close>

definition call :: "store_call \<Rightarrow> app \<Rightarrow> app" where
  "call c a = a\<lparr>dataStore := exec c (dataStore a), storeCalls := storeCalls a @ [c]\<rparr>"

text \<open>
  The loop \<^verbatim>\<open>for (const p of parts) { const v = Number(p); if (Number.isFinite(v)) values.push(v) }\<close>.
  \<^verbatim>\<open>Number\<close>, the conversion of a string to a number, is a parameter.
\<close>

fun pushFinite :: "(jsstring \<Rightarrow> number) \<Rightarrow> jsstring list \<Rightarrow> number list \<Rightarrow> number list" where
  "pushFinite Number [] values = values"
| "pushFinite Number (p # parts) values =
     (let v = Number p
      in if isFinite v then pushFinite Number parts (values @ [v])
         else pushFinite Number parts values)"

definition handleIncomingLine :: "(jsstring \<Rightarrow> number) \<Rightarrow> jsstring \<Rightarrow> app \<Rightarrow> app" where
  "handleIncomingLine Number line a =
     (let a1 = a\<lparr>lastLine := line\<rparr>;
          a2 = a1\<lparr>consoleIncoming := consoleIncoming a1 @ [line]\<rparr>
      in if startsWithHash (trim line) then
           (let names = filterBoolean (splitSeparators (replaceHeaderPrefix line))
            in if length names > 0 then call (SetSeries names) a2 else a2)
         else
           (let parts = filterBoolean (splitSeparators (trim line))
            in if length parts = 0 then a2
               else (let values = pushFinite Number parts []
                     in if length values > 0 then call (Append values) a2 else a2)))"

definition onPanStart :: "app \<Rightarrow> app" where
  "onPanStart a =
     (let a1 = call StopMomentum a
      in if \<not> getFrozen (dataStore a1) then call (SetFrozen True) a1 else a1)"

definition onPanDelta :: "real \<Rightarrow> app \<Rightarrow> app" where
  "onPanDelta delta a = call (SetViewPortCursor (getViewPortCursor (dataStore a) - delta)) a"

definition onPanEnd :: "real \<Rightarrow> app \<Rightarrow> app" where
  "onPanEnd endV a = call (StartMomentum (- endV)) a"

definition onToggleFrozen :: "app \<Rightarrow> app" where
  "onToggleFrozen a =
     (let a1 = call StopMomentum a
      in if \<not> getFrozen (dataStore a1) then call (SetFrozen True) a1
         else call (SetFrozen False) (call (SetViewPortCursor 0) a1))"

text \<open>
  The claim's reading of splitting a line into tokens: the maximal runs of characters
  that are not separators, from left to right.
\<close>

fun tokensFrom :: "jsstring \<Rightarrow> jsstring \<Rightarrow> jsstring list" where
  "tokensFrom cur [] = (if cur = [] then [] else [cur])"
| "tokensFrom cur (c # cs) =
     (if isSeparator c then (if cur = [] then [] else [cur]) @ tokensFrom [] cs
      else tokensFrom (cur @ [c]) cs)"

definition tokens :: "jsstring \<Rightarrow> jsstring list" where
  "tokens s = tokensFrom [] s"

text \<open>
  The claim's reading of a header: the text after the leading white space, the run of
  \<^verbatim>\<open>#\<close> characters and the white space that follows it.
\<close>

definition headerText :: "jsstring \<Rightarrow> jsstring" where
  "headerText line = dropWhile isWhiteSpace (dropWhile (\<lambda>c. c = 35) (dropWhile isWhiteSpace line))"

text \<open>
  A stand-in for \<^verbatim>\<open>Number\<close> at concrete inputs: it agrees with the conversion on
  non-empty strings of decimal digits (below \<open>2^53\<close>) and on strings such as \<^verbatim>\<open>abc\<close>
  that are no numeric literal, which convert to \<^verbatim>\<open>NaN\<close>.
\<close>

definition digitsValue :: "jsstring \<Rightarrow> nat" where
  "digitsValue s = foldl (\<lambda>n c. 10 * n + (c - 48)) 0 s"

definition NumberOfDigits :: "jsstring \<Rightarrow> number" where
  "NumberOfDigits s =
     (if s \<noteq> [] \<and> list_all (\<lambda>c. 48 \<le> c \<and> c \<le> 57) s then Finite (real (digitsValue s))
      else NaN)"

text \<open>The calls made on the store between two states of the application.\<close>

definition callsMade :: "app \<Rightarrow> app \<Rightarrow> store_call list" where
  "callsMade a a' = drop (length (storeCalls a)) (storeCalls a')"

text \<open>
  The application before any line has arrived: \<^verbatim>\<open>lastLine\<close> is the empty string, and
  the store is in its initial state.
\<close>

definition initApp :: "nat \<Rightarrow> nat \<Rightarrow> app" where
  "initApp c w = \<lparr>lastLine = [], consoleIncoming = [], dataStore = initStore c w, storeCalls = []\<rparr>"

text \<open>
  A state of the application in frozen mode: one channel, capacity 10, a window of 3 and
  six rows stored; the view has been frozen and moved to cursor 2, and a momentum scroll
  is in flight.
\<close>

definition frozenStore :: store where
  "frozenStore =
     startMomentum 3 (setViewPortCursor 2 (setFrozen True
       (appendAll [[Finite 1], [Finite 2], [Finite 3], [Finite 4], [Finite 5], [Finite 6]]
          (setSeries [js ''a''] (initStore 10 3)))))"

definition frozenApp :: app where
  "frozenApp = (initApp 10 3)\<lparr>dataStore := frozenStore\<rparr>"

section \<open>The serial read loop (useSerial)\<close>

text \<open>
  \<^verbatim>\<open>buffer.indexOf('\n')\<close>: the position of the first line feed, \<open>None\<close> for the -1 of a
  buffer without one.
\<close>

definition indexOfNewline :: "jsstring \<Rightarrow> nat option" where
  "indexOfNewline s = (if 10 \<in> set s then Some (length (takeWhile (\<lambda>c. c \<noteq> 10) s)) else None)"

text \<open>
  \<^verbatim>\<open>.replace(/\r$/, '')\<close>: without the multiline flag \<^verbatim>\<open>$\<close> matches at the end of the
  string only, so one carriage return is removed when the string ends with one.
\<close>

definition stripTrailingCR :: "jsstring \<Rightarrow> jsstring" where
  "stripTrailingCR s = (if s \<noteq> [] \<and> last s = 13 then butlast s else s)"

text \<open>
  A line handler acts on some state of its own; \<open>None\<close> is a handler that throws. The
  read loop is either still reading, with its buffer and the handler's state, or it has
  ended: an exception inside the \<^verbatim>\<open>try\<close> block leaves the loop through the \<^verbatim>\<open>catch\<close>.
\<close>

type_synonym 'h lineHandler = "jsstring \<Rightarrow> 'h \<Rightarrow> 'h option"

datatype 'h readLoop = Reading jsstring 'h | Ended

text \<open>
  The inner loop
  \<^verbatim>\<open>while ((index = buffer.indexOf('\n')) >= 0) { line = ...; buffer = ...; lineHandlerRef.current?.(line) }\<close>,
  where \<open>handler\<close> is \<^verbatim>\<open>lineHandlerRef.current\<close> (\<open>None\<close> when no handler is registered).
\<close>

function drainLines :: "'h lineHandler option \<Rightarrow> jsstring \<Rightarrow> 'h \<Rightarrow> 'h readLoop" where
  "drainLines handler buffer h =
     (case indexOfNewline buffer of
        None \<Rightarrow> Reading buffer h
      | Some index \<Rightarrow>
          (let line = stripTrailingCR (take index buffer);
               buffer' = drop (index + 1) buffer
           in case handler of
                None \<Rightarrow> drainLines handler buffer' h
              | Some f \<Rightarrow>
                  (case f line h of
                     None \<Rightarrow> Ended
                   | Some h' \<Rightarrow> drainLines handler buffer' h')))"
  by pat_completeness auto
termination
  by (relation "measure (\<lambda>(handler, buffer, h). length buffer)")
     (auto simp: indexOfNewline_def split: if_splits dest!: length_pos_if_in_set)

declare drainLines.simps [simp del]

text \<open>
  One turn of the outer loop for a chunk \<open>v\<close> that \<^verbatim>\<open>reader.read()\<close> returned with
  \<^verbatim>\<open>done\<close> false: an empty chunk is skipped (\<^verbatim>\<open>if (value)\<close>), any other is added to the
  buffer and the complete lines are taken out. \<open>readLoop\<close> is the loop over the chunks
  read so far, from the empty buffer.
\<close>

definition readChunk :: "'h lineHandler option \<Rightarrow> 'h readLoop \<Rightarrow> jsstring \<Rightarrow> 'h readLoop" where
  "readChunk handler st v =
     (case st of
        Ended \<Rightarrow> Ended
      | Reading buffer h \<Rightarrow> if v = [] then st else drainLines handler (buffer @ v) h)"

definition readLoop :: "'h lineHandler option \<Rightarrow> jsstring list \<Rightarrow> 'h \<Rightarrow> 'h readLoop" where
  "readLoop handler chunks h = foldl (readChunk handler) (Reading [] h) chunks"

text \<open>
  The claim's reading of the decoded stream: its newline-terminated segments, each
  without its line feed, and the characters after the last line feed.
\<close>

fun segmentsFrom :: "jsstring \<Rightarrow> jsstring \<Rightarrow> jsstring list" where
  "segmentsFrom cur [] = []"
| "segmentsFrom cur (c # cs) =
     (if c = 10 then cur # segmentsFrom [] cs else segmentsFrom (cur @ [c]) cs)"

fun pendingFrom :: "jsstring \<Rightarrow> jsstring \<Rightarrow> jsstring" where
  "pendingFrom cur [] = cur"
| "pendingFrom cur (c # cs) = (if c = 10 then pendingFrom [] cs else pendingFrom (cur @ [c]) cs)"

definition segments :: "jsstring \<Rightarrow> jsstring list" where
  "segments s = segmentsFrom [] s"

definition pending :: "jsstring \<Rightarrow> jsstring" where
  "pending s = pendingFrom [] s"

text \<open>
  A handler that returns normally, given by what it does to its state, and the state
  after it has been invoked on each line of a list in turn.
\<close>

definition returning :: "(jsstring \<Rightarrow> 'h \<Rightarrow> 'h) \<Rightarrow> 'h lineHandler" where
  "returning g = (\<lambda>line h. Some (g line h))"

definition deliver :: "(jsstring \<Rightarrow> 'h \<Rightarrow> 'h) \<Rightarrow> 'h \<Rightarrow> jsstring list \<Rightarrow> 'h" where
  "deliver g h ls = foldl (\<lambda>h l. g l h) h ls"

section \<open>The serial port and the data connection (useSerial, useDataConnection)\<close>

text \<open>
  A value that is thrown: an \<^verbatim>\<open>Error\<close> with its message, or something that is no
  \<^verbatim>\<open>Error\<close>. \<open>messageOr err fallback\<close> is
  \<^verbatim>\<open>err instanceof Error ? err.message : fallback\<close>.
\<close>

datatype thrown = Error jsstring | NotAnError

definition messageOr :: "thrown \<Rightarrow> jsstring \<Rightarrow> jsstring" where
  "messageOr err fallback = (case err of Error message \<Rightarrow> message | NotAnError \<Rightarrow> fallback)"

text \<open>
  \<^verbatim>\<open>new TextEncoder().encode(data)\<close>: the string is read as code points, a surrogate
  pair giving one code point and a lone surrogate U+FFFD, and each code point is written
  as one to four bytes of UTF-8.
\<close>

definition isHighSurrogate :: "nat \<Rightarrow> bool" where
  "isHighSurrogate c \<longleftrightarrow> 55296 \<le> c \<and> c \<le> 56319"

definition isLowSurrogate :: "nat \<Rightarrow> bool" where
  "isLowSurrogate c \<longleftrightarrow> 56320 \<le> c \<and> c \<le> 57343"

fun toCodePoints :: "jsstring \<Rightarrow> nat list" where
  "toCodePoints [] = []"
| "toCodePoints (c # cs) =
     (if isHighSurrogate c then
        (case cs of
           [] \<Rightarrow> [65533]
         | d # ds \<Rightarrow>
             if isLowSurrogate d
             then (65536 + (c - 55296) * 1024 + (d - 56320)) # toCodePoints ds
             else 65533 # toCodePoints cs)
      else if isLowSurrogate c then 65533 # toCodePoints cs
      else c # toCodePoints cs)"

definition encodeCodePoint :: "nat \<Rightarrow> nat list" where
  "encodeCodePoint cp =
     (if cp < 128 then [cp]
      else if cp < 2048 then [192 + cp div 64, 128 + cp mod 64]
      else if cp < 65536 then [224 + cp div 4096, 128 + (cp div 64) mod 64, 128 + cp mod 64]
      else [240 + cp div 262144, 128 + (cp div 4096) mod 64, 128 + (cp div 64) mod 64,
            128 + cp mod 64])"

definition encode :: "jsstring \<Rightarrow> nat list" where
  "encode s = concat (map encodeCodePoint (toCodePoints s))"

text \<open>
  The claim's reading of UTF-8, as the way a byte sequence is read back: a code point is
  a Unicode scalar value (at most U+10FFFF and no surrogate); it is written in one to four
  bytes, a lead byte followed by continuation bytes, in the shortest form only. A byte
  sequence that is not of this form has no reading.
\<close>

definition isScalarValue :: "nat \<Rightarrow> bool" where
  "isScalarValue cp \<longleftrightarrow> cp < 1114112 \<and> \<not> (55296 \<le> cp \<and> cp \<le> 57343)"

definition isContinuation :: "nat \<Rightarrow> bool" where
  "isContinuation b \<longleftrightarrow> 128 \<le> b \<and> b < 192"

fun utf8Decode :: "nat list \<Rightarrow> nat list option" where
  "utf8Decode [] = Some []"
| "utf8Decode (b # bs) =
     (if b < 128 then map_option ((#) b) (utf8Decode bs)
      else if 192 \<le> b \<and> b < 224 then
        (case bs of
           b1 # r \<Rightarrow>
             (let cp = (b - 192) * 64 + (b1 - 128)
              in if isContinuation b1 \<and> 128 \<le> cp
                 then map_option ((#) cp) (utf8Decode r) else None)
         | _ \<Rightarrow> None)
      else if 224 \<le> b \<and> b < 240 then
        (case bs of
           b1 # b2 # r \<Rightarrow>
             (let cp = (b - 224) * 4096 + (b1 - 128) * 64 + (b2 - 128)
              in if isContinuation b1 \<and> isContinuation b2 \<and> 2048 \<le> cp \<and> isScalarValue cp
                 then map_option ((#) cp) (utf8Decode r) else None)
         | _ \<Rightarrow> None)
      else if 240 \<le> b \<and> b < 248 then
        (case bs of
           b1 # b2 # b3 # r \<Rightarrow>
             (let cp = (b - 240) * 262144 + (b1 - 128) * 4096 + (b2 - 128) * 64 + (b3 - 128)
              in if isContinuation b1 \<and> isContinuation b2 \<and> isContinuation b3
                    \<and> 65536 \<le> cp \<and> isScalarValue cp
                 then map_option ((#) cp) (utf8Decode r) else None)
         | _ \<Rightarrow> None)
      else None)"

text \<open>
  The state of \<^verbatim>\<open>useSerial\<close>: the fields of \<^verbatim>\<open>SerialState\<close> and the refs. A port, a
  reader, a writer or an abort controller is a handle of the browser; the model keeps
  whether each is present (\<open>True\<close>) or \<^verbatim>\<open>null\<close>. \<open>readLoopRunning\<close> tells whether the read
  loop that \<^verbatim>\<open>connect\<close> starts is still reading from its reader, and \<open>writerCalls\<close> records
  the byte arrays handed to \<^verbatim>\<open>writerRef.current.write\<close>, in order.
\<close>

record serial =
  isSupported :: bool
  isConnecting :: bool
  isConnected :: bool
  port :: bool
  readerLocked :: bool
  error :: "jsstring option"
  abortControllerRef :: bool
  readerRef :: bool
  portRef :: bool
  writerRef :: bool
  readLoopRunning :: bool
  writerCalls :: "nat list list"

definition initSerial :: "bool \<Rightarrow> serial" where
  "initSerial supported =
     \<lparr>isSupported = supported, isConnecting = False, isConnected = False, port = False,
      readerLocked = False, error = None, abortControllerRef = False, readerRef = False,
      portRef = False, writerRef = False, readLoopRunning = False, writerCalls = []\<rparr>"

text \<open>
  \<^verbatim>\<open>disconnect\<close> of \<^verbatim>\<open>useSerial\<close>, which reads the refs only. With a reader present it
  calls \<^verbatim>\<open>reader.cancel()\<close>, after which the pending \<^verbatim>\<open>read()\<close> of the read loop returns
  \<^verbatim>\<open>done\<close> and the loop ends (\<^verbatim>\<open>cancel()\<close> can only throw for a reader that the loop has
  released already, on its way out). Errors of \<^verbatim>\<open>reader.cancel()\<close> and \<^verbatim>\<open>writer.close()\<close>
  are ignored; if \<^verbatim>\<open>portRef.current.close()\<close> throws (\<open>closeThrows\<close>), the outer \<^verbatim>\<open>catch\<close>
  swallows it and \<^verbatim>\<open>portRef.current = null\<close> is skipped. The \<^verbatim>\<open>finally\<close> block always
  clears \<^verbatim>\<open>isConnected\<close>, \<^verbatim>\<open>port\<close> and \<^verbatim>\<open>readerLocked\<close>.
\<close>

definition serialDisconnect :: "bool \<Rightarrow> serial \<Rightarrow> serial" where
  "serialDisconnect closeThrows s =
     (let s1 = s\<lparr>abortControllerRef := False\<rparr>;
          s2 = (if readerRef s1 then s1\<lparr>readLoopRunning := False\<rparr> else s1)\<lparr>readerRef := False\<rparr>;
          s3 = s2\<lparr>writerRef := False\<rparr>;
          s4 = (if portRef s3 \<and> closeThrows then s3 else s3\<lparr>portRef := False\<rparr>)
      in s4\<lparr>isConnected := False, port := False, readerLocked := False\<rparr>)"

text \<open>
  \<^verbatim>\<open>connect\<close> of \<^verbatim>\<open>useSerial\<close>. What the browser does is a parameter: the port opens,
  reader and writer are obtained and the read loop starts (\<open>Opened\<close>); or a step up to
  \<^verbatim>\<open>textDecoder.readable.getReader()\<close> throws (\<open>FailedBeforeReader\<close>: no ref has been set);
  or \<^verbatim>\<open>port.writable.getWriter()\<close> throws (\<open>FailedAtGetWriter\<close>: only \<^verbatim>\<open>readerRef\<close> has
  been set, and the loop has not started). Every exception is caught inside, so the
  function returns normally; the result type keeps the rejecting case that the caller's
  \<^verbatim>\<open>try\<close> provides for. \<^verbatim>\<open>state.isSupported\<close> is read from the closure, but no
  \<^verbatim>\<open>setState\<close> ever changes it, so it is the current value.
\<close>

datatype connectOutcome = Opened | FailedBeforeReader thrown | FailedAtGetWriter thrown

definition serialConnect :: "connectOutcome \<Rightarrow> bool \<Rightarrow> serial \<Rightarrow> thrown + serial" where
  "serialConnect outcome closeThrows s =
     (if \<not> isSupported s
      then Inr (s\<lparr>error := Some (js ''Web Serial not supported in this browser.'')\<rparr>)
      else
        (let s1 = (if portRef s then serialDisconnect closeThrows s else s);
             s2 = s1\<lparr>isConnecting := True, error := None\<rparr>;
             s3 = (case outcome of
                     Opened \<Rightarrow>
                       s2\<lparr>readerRef := True, writerRef := True, portRef := True,
                          port := True, isConnected := True, abortControllerRef := True,
                          readLoopRunning := True\<rparr>
                   | FailedBeforeReader err \<Rightarrow>
                       s2\<lparr>error := Some (messageOr err (js ''Failed to connect.''))\<rparr>
                   | FailedAtGetWriter err \<Rightarrow>
                       s2\<lparr>readerRef := True,
                          error := Some (messageOr err (js ''Failed to connect.''))\<rparr>)
         in Inr (s3\<lparr>isConnecting := False\<rparr>)))"

text \<open>
  \<^verbatim>\<open>write\<close> of \<^verbatim>\<open>useSerial\<close>. Without a writer it throws. Otherwise it encodes the data
  and hands the bytes to the writer; if the writer rejects (\<open>WriteRejected\<close>), the message
  is stored in \<^verbatim>\<open>error\<close> and the rejection is thrown on. The result is what is thrown, if
  anything, and the state.
\<close>

datatype writeOutcome = Written | WriteRejected thrown

definition serialWrite :: "writeOutcome \<Rightarrow> jsstring \<Rightarrow> serial \<Rightarrow> thrown option \<times> serial" where
  "serialWrite outcome data s =
     (if \<not> writerRef s then (Some (Error (js ''Serial port not connected'')), s)
      else
        (let encoded = encode data;
             s1 = s\<lparr>writerCalls := writerCalls s @ [encoded]\<rparr>
         in case outcome of
              Written \<Rightarrow> (None, s1)
            | WriteRejected err \<Rightarrow>
                (Some err,
                 s1\<lparr>error := Some (messageOr err (js ''Failed to write to serial port''))\<rparr>)))"

text \<open>
  The state of \<^verbatim>\<open>useDataConnection\<close>: its own \<^verbatim>\<open>connectionType\<close>, \<^verbatim>\<open>isConnecting\<close> and
  \<^verbatim>\<open>error\<close> (suffixed, as the serial state has fields of the same names), the serial
  hook, the generator's \<^verbatim>\<open>isRunning\<close>, and the calls made on the serial hook and on the
  generator, in order. The configurations passed to \<^verbatim>\<open>serial.connect\<close> and
  \<^verbatim>\<open>generator.setConfig\<close> do not bear on which source is active and are left out.
\<close>

datatype connectionType = Serial | Generator

datatype hookCall =
    GeneratorStop
  | GeneratorSetConfig
  | GeneratorStart
  | SerialConnect
  | SerialDisconnect
  | SerialWrite jsstring

record dataConnection =
  connectionType :: "connectionType option"
  isConnecting_dc :: bool
  error_dc :: "jsstring option"
  serial :: serial
  generatorIsRunning :: bool
  hookCalls :: "hookCall list"

definition initDataConnection :: "bool \<Rightarrow> dataConnection" where
  "initDataConnection supported =
     \<lparr>connectionType = None, isConnecting_dc = False, error_dc = None,
      serial = initSerial supported, generatorIsRunning = False, hookCalls = []\<rparr>"

definition stateIsConnected :: "dataConnection \<Rightarrow> bool" where
  "stateIsConnected c \<longleftrightarrow> isConnected (serial c) \<or> generatorIsRunning c"

text \<open>
  The callbacks of the hook are made by \<^verbatim>\<open>useCallback\<close> in a render and read
  \<^verbatim>\<open>connectionType\<close>, \<^verbatim>\<open>serial.state.isConnected\<close> and \<^verbatim>\<open>generator.isRunning\<close> as that
  render saw them, not as they are when the callback runs. A \<open>render\<close> holds these three
  values; \<open>renderOf c\<close> is what a render in the state \<open>c\<close> sees.
\<close>

record render =
  seenType :: "connectionType option"
  seenConnected :: bool
  seenRunning :: bool

definition renderOf :: "dataConnection \<Rightarrow> render" where
  "renderOf c =
     \<lparr>seenType = connectionType c, seenConnected = isConnected (serial c),
      seenRunning = generatorIsRunning c\<rparr>"

text \<open>
  Modelled from the spec: the signal generator of \<^verbatim>\<open>useSignalGenerator\<close>, which is not
  among the source files. The specification names it only as a synthetic waveform
  generator used as an alternate source; as \<^verbatim>\<open>useDataConnection\<close> uses it, \<^verbatim>\<open>stop()\<close>
  clears \<^verbatim>\<open>isRunning\<close> and \<^verbatim>\<open>start()\<close> sets it. \<^verbatim>\<open>setConfig\<close> or \<^verbatim>\<open>start\<close> may throw, which
  the \<^verbatim>\<open>try\<close> block of \<^verbatim>\<open>connectGenerator\<close> provides for; \<^verbatim>\<open>isRunning\<close> is then unchanged.
\<close>

definition generatorStop :: "dataConnection \<Rightarrow> dataConnection" where
  "generatorStop c = c\<lparr>generatorIsRunning := False, hookCalls := hookCalls c @ [GeneratorStop]\<rparr>"

datatype startOutcome = Started | SetConfigThrows thrown | StartThrows thrown

text \<open>The call \<^verbatim>\<open>await serial.disconnect()\<close> made by the connection hook.\<close>

definition dcSerialDisconnect :: "bool \<Rightarrow> dataConnection \<Rightarrow> dataConnection" where
  "dcSerialDisconnect closeThrows c =
     c\<lparr>serial := serialDisconnect closeThrows (serial c),
       hookCalls := hookCalls c @ [SerialDisconnect]\<rparr>"

text \<open>
  \<^verbatim>\<open>connectSerial\<close>, \<^verbatim>\<open>connectGenerator\<close>, \<^verbatim>\<open>disconnect\<close> and \<^verbatim>\<open>write\<close> of
  \<^verbatim>\<open>useDataConnection\<close>, each as one call that runs to completion: \<open>r\<close> is the render that
  made the callback, whose values the guards read, and \<open>c\<close> the state when it runs.
  \<^verbatim>\<open>connectSerial\<close> and \<^verbatim>\<open>write\<close> return what they throw, if anything, with the state.
\<close>

definition connectSerial ::
  "render \<Rightarrow> connectOutcome \<Rightarrow> bool \<Rightarrow> dataConnection \<Rightarrow> thrown option \<times> dataConnection" where
  "connectSerial r outcome closeThrows c =
     (let c1 = (if seenRunning r then generatorStop c else c);
          c2 = c1\<lparr>isConnecting_dc := True, error_dc := None\<rparr>;
          c3 = c2\<lparr>hookCalls := hookCalls c2 @ [SerialConnect]\<rparr>
      in case serialConnect outcome closeThrows (serial c3) of
           Inr s \<Rightarrow>
             (None, c3\<lparr>serial := s, connectionType := Some Serial, isConnecting_dc := False\<rparr>)
         | Inl err \<Rightarrow>
             (Some err,
              c3\<lparr>error_dc := Some (messageOr err (js ''Failed to connect to serial port'')),
                 connectionType := None, isConnecting_dc := False\<rparr>))"

definition connectGenerator ::
  "render \<Rightarrow> startOutcome \<Rightarrow> bool \<Rightarrow> dataConnection \<Rightarrow> dataConnection" where
  "connectGenerator r outcome closeThrows c =
     (let c1 = (if seenConnected r then dcSerialDisconnect closeThrows c else c);
          c2 = c1\<lparr>error_dc := None, connectionType := Some Generator\<rparr>;
          c3 = c2\<lparr>hookCalls := hookCalls c2 @ [GeneratorSetConfig]\<rparr>
      in case outcome of
           Started \<Rightarrow>
             c3\<lparr>generatorIsRunning := True, hookCalls := hookCalls c3 @ [GeneratorStart]\<rparr>
         | SetConfigThrows err \<Rightarrow>
             c3\<lparr>error_dc := Some (messageOr err (js ''Failed to start signal generator'')),
                connectionType := None\<rparr>
         | StartThrows err \<Rightarrow>
             c3\<lparr>hookCalls := hookCalls c3 @ [GeneratorStart],
                error_dc := Some (messageOr err (js ''Failed to start signal generator'')),
                connectionType := None\<rparr>)"

definition disconnect :: "render \<Rightarrow> bool \<Rightarrow> dataConnection \<Rightarrow> dataConnection" where
  "disconnect r closeThrows c =
     (let c1 = c\<lparr>error_dc := None\<rparr>;
          c2 = (if seenConnected r then dcSerialDisconnect closeThrows c1 else c1);
          c3 = (if seenRunning r then generatorStop c2 else c2)
      in c3\<lparr>connectionType := None\<rparr>)"

definition write_dc ::
  "render \<Rightarrow> writeOutcome \<Rightarrow> jsstring \<Rightarrow> dataConnection \<Rightarrow> thrown option \<times> dataConnection" where
  "write_dc r outcome data c =
     (if seenType r \<noteq> Some Serial \<or> \<not> seenConnected r
      then (Some (Error (js ''Serial port not connected'')), c)
      else
        (let w = serialWrite outcome data (serial c)
         in (fst w, c\<lparr>serial := snd w, hookCalls := hookCalls c @ [SerialWrite data]\<rparr>)))"

text \<open>
  \<^verbatim>\<open>connectSerial\<close> waits for the user inside \<^verbatim>\<open>serial.connect\<close>, at
  \<^verbatim>\<open>await navigator.serial.requestPort()\<close>. The definitions below are the part of the call
  before that wait and the part after it, for \<^verbatim>\<open>serial.connect\<close> and for \<^verbatim>\<open>connectSerial\<close>,
  so that another operation can be run in between. \<^verbatim>\<open>isSupported\<close> never changes, and
  the second part tells from it whether the first had returned early.
\<close>

definition serialConnectBegin :: "bool \<Rightarrow> serial \<Rightarrow> serial" where
  "serialConnectBegin closeThrows s =
     (if \<not> isSupported s
      then s\<lparr>error := Some (js ''Web Serial not supported in this browser.'')\<rparr>
      else
        (let s1 = (if portRef s then serialDisconnect closeThrows s else s)
         in s1\<lparr>isConnecting := True, error := None\<rparr>))"

definition serialConnectEnd :: "connectOutcome \<Rightarrow> serial \<Rightarrow> serial" where
  "serialConnectEnd outcome s =
     (if \<not> isSupported s then s
      else
        (let s3 = (case outcome of
                     Opened \<Rightarrow>
                       s\<lparr>readerRef := True, writerRef := True, portRef := True,
                         port := True, isConnected := True, abortControllerRef := True,
                         readLoopRunning := True\<rparr>
                   | FailedBeforeReader err \<Rightarrow>
                       s\<lparr>error := Some (messageOr err (js ''Failed to connect.''))\<rparr>
                   | FailedAtGetWriter err \<Rightarrow>
                       s\<lparr>readerRef := True,
                         error := Some (messageOr err (js ''Failed to connect.''))\<rparr>)
         in s3\<lparr>isConnecting := False\<rparr>))"

definition connectSerialBegin :: "render \<Rightarrow> bool \<Rightarrow> dataConnection \<Rightarrow> dataConnection" where
  "connectSerialBegin r closeThrows c =
     (let c1 = (if seenRunning r then generatorStop c else c);
          c2 = c1\<lparr>isConnecting_dc := True, error_dc := None\<rparr>;
          c3 = c2\<lparr>hookCalls := hookCalls c2 @ [SerialConnect]\<rparr>
      in c3\<lparr>serial := serialConnectBegin closeThrows (serial c3)\<rparr>)"

definition connectSerialEnd :: "connectOutcome \<Rightarrow> dataConnection \<Rightarrow> dataConnection" where
  "connectSerialEnd outcome c =
     c\<lparr>serial := serialConnectEnd outcome (serial c), connectionType := Some Serial,
       isConnecting_dc := False\<rparr>"

text \<open>
  The operations of the hook with what the browser and the generator do in each.
  \<open>applyOp r c op\<close> runs an operation through the callback of the render \<open>r\<close>.
  \<open>runLatest\<close> runs a sequence of operations one after the other, each to completion and
  each through the callback of the latest render, which sees the state as it is.
\<close>

datatype connectionOp =
    ConnectSerial connectOutcome bool
  | ConnectGenerator startOutcome bool
  | Disconnect bool
  | Write writeOutcome jsstring

fun applyOp :: "render \<Rightarrow> dataConnection \<Rightarrow> connectionOp \<Rightarrow> dataConnection" where
  "applyOp r c (ConnectSerial outcome closeThrows) = snd (connectSerial r outcome closeThrows c)"
| "applyOp r c (ConnectGenerator outcome closeThrows) = connectGenerator r outcome closeThrows c"
| "applyOp r c (Disconnect closeThrows) = disconnect r closeThrows c"
| "applyOp r c (Write outcome data) = snd (write_dc r outcome data c)"

definition runLatest :: "connectionOp list \<Rightarrow> dataConnection \<Rightarrow> dataConnection" where
  "runLatest ops c = foldl (\<lambda>c op. applyOp (renderOf c) c op) c ops"

text \<open>
  The serial source is active when it is flagged connected or its read loop is reading;
  both sources are active; the calls made between two states; the serial port has been
  let go of (the read loop has ended, reader, writer and abort controller are dropped, and
  so is the port unless closing it threw); the three conditions under which \<^verbatim>\<open>write\<close>
  does not reach the writer; and the state after a serial port has been opened from the
  initial state.
\<close>

definition serialActive :: "serial \<Rightarrow> bool" where
  "serialActive s \<longleftrightarrow> isConnected s \<or> readLoopRunning s"

definition bothActive :: "dataConnection \<Rightarrow> bool" where
  "bothActive c \<longleftrightarrow> serialActive (serial c) \<and> generatorIsRunning c"

definition callsSince :: "dataConnection \<Rightarrow> dataConnection \<Rightarrow> hookCall list" where
  "callsSince c c' = drop (length (hookCalls c)) (hookCalls c')"

definition released :: "bool \<Rightarrow> serial \<Rightarrow> bool" where
  "released closeThrows s \<longleftrightarrow>
     \<not> readLoopRunning s \<and> \<not> readerRef s \<and> \<not> writerRef s \<and> \<not> abortControllerRef s
     \<and> \<not> port s \<and> (portRef s \<longrightarrow> closeThrows)"

definition notConnected :: "render \<Rightarrow> dataConnection \<Rightarrow> bool" where
  "notConnected r c \<longleftrightarrow>
     seenType r \<noteq> Some Serial \<or> \<not> seenConnected r \<or> \<not> writerRef (serial c)"

definition connectedSerial :: dataConnection where
  "connectedSerial =
     snd (connectSerial (renderOf (initDataConnection True)) Opened False (initDataConnection True))"

text \<open>
  What holds of the serial state, and of the connection, after operations run through the
  callbacks of the latest render: a running read loop has its reader and is flagged
  connected, and the two sources are not both active.
\<close>

definition serialOk :: "serial \<Rightarrow> bool" where
  "serialOk s \<longleftrightarrow> (readLoopRunning s \<longrightarrow> isConnected s \<and> readerRef s)"

definition connOk :: "dataConnection \<Rightarrow> bool" where
  "connOk c \<longleftrightarrow> serialOk (serial c) \<and> \<not> bothActive c"

section \<open>The line parser\<close>

lemma tokensFrom_run:
  "tokensFrom cur s =
     tokensFrom (cur @ takeWhile (\<lambda>c. \<not> isSeparator c) s) (dropWhile (\<lambda>c. \<not> isSeparator c) s)"
  by (induction s arbitrary: cur) auto

lemma tokensFrom_skip:
  "tokensFrom [] (dropWhile isSeparator s) = tokensFrom [] s"
  by (induction s) auto

lemma tokensFrom_skip_ws:
  "tokensFrom [] (dropWhile isWhiteSpace s) = tokensFrom [] s"
  by (induction s) (auto simp: isSeparator_def)

lemma tokensFrom_all_sep:
  "\<forall>c\<in>set ys. isSeparator c \<Longrightarrow> tokensFrom cur ys = (if cur = [] then [] else [cur])"
  by (induction ys arbitrary: cur) auto

lemma tokensFrom_trailing:
  "\<forall>c\<in>set ys. isSeparator c \<Longrightarrow> tokensFrom cur (xs @ ys) = tokensFrom cur xs"
  by (induction xs arbitrary: cur) (auto simp: tokensFrom_all_sep)

lemma split_tokens: "filterBoolean (splitSeparators s) = tokens s"
proof (induction s rule: splitSeparators.induct)
  case (1 s)
  let ?piece = "takeWhile (\<lambda>c. \<not> isSeparator c) s"
  let ?rest = "dropWhile (\<lambda>c. \<not> isSeparator c) s"
  have run: "tokens s = tokensFrom ?piece ?rest"
    using tokensFrom_run [of "[]" s] by (simp add: tokens_def)
  show ?case
  proof (cases "?rest = []")
    case True
    have "splitSeparators s = [?piece]"
      by (subst splitSeparators.simps) (simp only: Let_def True refl if_True)
    moreover have "tokens s = tokensFrom ?piece []"
      using run by (simp only: True)
    ultimately show ?thesis
      by (simp add: filterBoolean_def)
  next
    case False
    then obtain c cs where rc: "?rest = c # cs" by (cases ?rest) auto
    then have sep: "isSeparator c"
      by (metis (mono_tags, lifting) dropWhile_eq_Cons_conv)
    have ih: "filterBoolean (splitSeparators (dropWhile isSeparator ?rest)) = tokens (dropWhile isSeparator ?rest)"
      using "1.IH" [OF refl refl False] .
    have "tokens (dropWhile isSeparator ?rest) = tokensFrom [] cs"
      using tokensFrom_skip [of ?rest] rc sep by (simp add: tokens_def)
    with ih have ih': "filterBoolean (splitSeparators (dropWhile isSeparator ?rest)) = tokensFrom [] cs"
      by simp
    have "splitSeparators s = ?piece # splitSeparators (dropWhile isSeparator ?rest)"
      by (subst splitSeparators.simps) (simp only: Let_def False if_False)
    then have "filterBoolean (splitSeparators s) =
            (if ?piece = [] then [] else [?piece]) @ filterBoolean (splitSeparators (dropWhile isSeparator ?rest))"
      by (simp add: filterBoolean_def)
    also have "\<dots> = tokensFrom ?piece ?rest"
      using ih' rc sep by simp
    finally show ?thesis using run by simp
  qed
qed

lemma trim_decomp:
  "dropWhile isWhiteSpace s = trim s @ rev (takeWhile isWhiteSpace (rev (dropWhile isWhiteSpace s)))"
proof -
  have "rev (dropWhile isWhiteSpace s) =
          takeWhile isWhiteSpace (rev (dropWhile isWhiteSpace s)) @ dropWhile isWhiteSpace (rev (dropWhile isWhiteSpace s))"
    by simp
  then have "rev (rev (dropWhile isWhiteSpace s)) = rev (takeWhile isWhiteSpace (rev (dropWhile isWhiteSpace s)) @ dropWhile isWhiteSpace (rev (dropWhile isWhiteSpace s)))"
    by simp
  then show ?thesis unfolding trim_def by (simp only: rev_rev_ident rev_append)
qed

lemma tokens_trim: "tokens (trim s) = tokens s"
proof -
  let ?t = "rev (takeWhile isWhiteSpace (rev (dropWhile isWhiteSpace s)))"
  have "\<forall>c\<in>set ?t. isSeparator c"
    by (auto simp: isSeparator_def dest: set_takeWhileD)
  then have "tokensFrom [] (trim s @ ?t) = tokensFrom [] (trim s)"
    by (rule tokensFrom_trailing)
  then have "tokensFrom [] (dropWhile isWhiteSpace s) = tokensFrom [] (trim s)"
    using trim_decomp [of s] by simp
  then show ?thesis by (simp add: tokens_def tokensFrom_skip_ws)
qed

lemma pushFinite_filter:
  "pushFinite N parts acc = acc @ filter isFinite (map N parts)"
  by (induction parts arbitrary: acc) (auto simp: Let_def)

lemma startsWithHash_trim:
  "startsWithHash (trim s) = startsWithHash (dropWhile isWhiteSpace s)"
proof (cases "dropWhile isWhiteSpace s")
  case Nil
  show ?thesis by (simp only: trim_def Nil) simp
next
  case (Cons c cs)
  then have nws: "\<not> isWhiteSpace c"
    by (metis (mono_tags, lifting) dropWhile_eq_Cons_conv)
  have "trim s = rev (dropWhile isWhiteSpace (rev cs @ [c]))"
    using Cons by (simp add: trim_def)
  also have "\<dots> = rev (dropWhile isWhiteSpace (rev cs) @ [c])"
    using nws by (simp add: dropWhile_append3)
  finally have "trim s = c # rev (dropWhile isWhiteSpace (rev cs))" by simp
  then show ?thesis using Cons by (simp add: startsWithHash_def)
qed

lemma replaceHeaderPrefix_header:
  "startsWithHash (trim line) \<Longrightarrow> replaceHeaderPrefix line = headerText line"
  by (simp add: startsWithHash_trim replaceHeaderPrefix_def headerText_def)

lemma parts_of_data_line: "filterBoolean (splitSeparators (trim line)) = tokens line"
  by (simp add: split_tokens tokens_trim)

text \<open>
  Claim C1. For a line whose trimmed text does not start with \<^verbatim>\<open>#\<close>, the handler
  splits the line into its tokens, converts each with \<^verbatim>\<open>Number\<close>, drops the tokens whose
  value is not finite, and calls \<^verbatim>\<open>append\<close> on the store with exactly the remaining values
  in their order; it makes that one call if at least one value remains and no call on the
  store otherwise.
\<close>

theorem handleIncomingLine_data:
  assumes "\<not> startsWithHash (trim line)"
  shows "callsMade a (handleIncomingLine Number line a) =
           (if filter isFinite (map Number (tokens line)) = [] then []
            else [Append (filter isFinite (map Number (tokens line)))])
         \<and> dataStore (handleIncomingLine Number line a) =
           (if filter isFinite (map Number (tokens line)) = [] then dataStore a
            else appendRow (filter isFinite (map Number (tokens line))) (dataStore a))"
proof -
  have vals: "pushFinite Number (tokens line) [] = filter isFinite (map Number (tokens line))"
    by (simp add: pushFinite_filter)
  show ?thesis
    using assms
    by (auto simp: handleIncomingLine_def Let_def parts_of_data_line vals callsMade_def call_def)
qed

theorem handleIncomingLine_data_witness:
  "\<not> startsWithHash (trim (js '' 1, abc 2,''))
   \<and> callsMade (initApp 5 5) (handleIncomingLine NumberOfDigits (js '' 1, abc 2,'') (initApp 5 5)) =
       [Append [Finite 1, Finite 2]]"
  using handleIncomingLine_data [of "js '' 1, abc 2,''" "initApp 5 5" NumberOfDigits]
  by (simp add: js_def trim_def startsWithHash_def isWhiteSpace_def isSeparator_def tokens_def
      NumberOfDigits_def digitsValue_def)

text \<open>
  Claim C3. For a line whose trimmed text starts with \<^verbatim>\<open>#\<close>, the handler removes the
  leading white space, the \<^verbatim>\<open>#\<close> characters and the white space after them, splits the
  rest into names, and calls \<^verbatim>\<open>setSeries\<close> with the names if and only if there is at
  least one; \<^verbatim>\<open>setSeries\<close> is never called with an empty list, and \<^verbatim>\<open>append\<close> is not
  called.
\<close>

theorem handleIncomingLine_header:
  assumes "startsWithHash (trim line)"
  shows "callsMade a (handleIncomingLine Number line a) =
           (if tokens (headerText line) = [] then []
            else [SetSeries (tokens (headerText line))])
         \<and> dataStore (handleIncomingLine Number line a) =
           (if tokens (headerText line) = [] then dataStore a
            else setSeries (tokens (headerText line)) (dataStore a))
         \<and> SetSeries [] \<notin> set (callsMade a (handleIncomingLine Number line a))
         \<and> (\<forall>vs. Append vs \<notin> set (callsMade a (handleIncomingLine Number line a)))"
proof -
  have names: "filterBoolean (splitSeparators (replaceHeaderPrefix line)) = tokens (headerText line)"
    using assms by (simp add: split_tokens replaceHeaderPrefix_header)
  show ?thesis
    using assms
    by (auto simp: handleIncomingLine_def Let_def names callsMade_def call_def)
qed

theorem handleIncomingLine_header_witness:
  "startsWithHash (trim (js '' ## t, v1 ''))
   \<and> callsMade (initApp 5 5) (handleIncomingLine NumberOfDigits (js '' ## t, v1 '') (initApp 5 5)) =
       [SetSeries [js ''t'', js ''v1'']]"
  using handleIncomingLine_header [of "js '' ## t, v1 ''" "initApp 5 5" NumberOfDigits]
  by (simp add: js_def trim_def startsWithHash_def isWhiteSpace_def isSeparator_def tokens_def
      headerText_def)

text \<open>
  Claim C4. The handler has no failing path: it is a total function of the line, and
  neither the string operations nor the store's operations raise. For a line that is no
  header and has no token with a finite value (an empty line, white space only, or words
  that are no numbers), it calls neither \<^verbatim>\<open>append\<close> nor \<^verbatim>\<open>setSeries\<close>, and the store is
  as it was.
\<close>

theorem handleIncomingLine_nothing_finite:
  assumes "\<not> startsWithHash (trim line)"
    and "filter isFinite (map Number (tokens line)) = []"
  shows "callsMade a (handleIncomingLine Number line a) = []
         \<and> dataStore (handleIncomingLine Number line a) = dataStore a"
proof -
  have vals: "pushFinite Number (tokens line) [] = []"
    using assms(2) by (simp add: pushFinite_filter)
  show ?thesis
    using assms(1)
    by (auto simp: handleIncomingLine_def Let_def parts_of_data_line vals callsMade_def call_def)
qed

theorem handleIncomingLine_nothing_finite_witness:
  "\<not> startsWithHash (trim (js '' abc, ''))
   \<and> filter isFinite (map NumberOfDigits (tokens (js '' abc, ''))) = []
   \<and> callsMade (initApp 5 5) (handleIncomingLine NumberOfDigits (js '' abc, '') (initApp 5 5)) = []
   \<and> dataStore (handleIncomingLine NumberOfDigits (js '' abc, '') (initApp 5 5)) = initStore 5 5"
proof -
  have h1: "\<not> startsWithHash (trim (js '' abc, ''))"
    by (simp add: js_def trim_def startsWithHash_def isWhiteSpace_def)
  have h2: "filter isFinite (map NumberOfDigits (tokens (js '' abc, ''))) = []"
    by (simp add: js_def isWhiteSpace_def isSeparator_def tokens_def NumberOfDigits_def)
  show ?thesis
    using h1 h2 handleIncomingLine_nothing_finite [OF h1 h2, of "initApp 5 5"]
    by (simp add: initApp_def)
qed

section \<open>The pan and freeze handlers\<close>

text \<open>
  Claim C5. On pan start the handler calls \<^verbatim>\<open>stopMomentum\<close> first, and then
  \<^verbatim>\<open>setFrozen(true)\<close> only if the view is not frozen. Afterwards no momentum scroll is in
  flight and the view is frozen; if it was frozen already, the frozen flag and the cursor
  are as they were.
\<close>

theorem onPanStart_calls:
  "callsMade a (onPanStart a) =
     (if getFrozen (dataStore a) then [StopMomentum] else [StopMomentum, SetFrozen True])
   \<and> momentum (dataStore (onPanStart a)) = None
   \<and> frozen (dataStore (onPanStart a))
   \<and> (getFrozen (dataStore a) \<longrightarrow>
        frozen (dataStore (onPanStart a)) = frozen (dataStore a)
        \<and> cursor (dataStore (onPanStart a)) = cursor (dataStore a))"
  by (simp add: onPanStart_def Let_def call_def callsMade_def getFrozen_def stopMomentum_def
      setFrozen_def)

theorem onPanStart_calls_witness:
  "getFrozen (dataStore frozenApp)
   \<and> callsMade frozenApp (onPanStart frozenApp) = [StopMomentum]
   \<and> momentum (dataStore (onPanStart frozenApp)) = None
   \<and> frozen (dataStore (onPanStart frozenApp))
   \<and> cursor (dataStore (onPanStart frozenApp)) = 2"
  using onPanStart_calls [of frozenApp]
  by (simp add: frozenApp_def frozenStore_def getFrozen_def initApp_def initStore_def
      setSeries_def appendAll_def appendRow_def setFrozen_def setViewPortCursor_def
      maxCursor_def retainedCount_def startMomentum_def js_def)

text \<open>
  Claim C6. The pan-delta handler makes the one call
  \<^verbatim>\<open>setViewPortCursor(getViewPortCursor() - delta)\<close>, and the pan-end handler the one call
  \<^verbatim>\<open>startMomentum(-endV)\<close>.
\<close>

theorem onPanDelta_onPanEnd_calls:
  "callsMade a (onPanDelta d a) = [SetViewPortCursor (getViewPortCursor (dataStore a) - d)]
   \<and> dataStore (onPanDelta d a) =
       setViewPortCursor (getViewPortCursor (dataStore a) - d) (dataStore a)
   \<and> callsMade a (onPanEnd v a) = [StartMomentum (- v)]
   \<and> dataStore (onPanEnd v a) = startMomentum (- v) (dataStore a)
   \<and> momentum (dataStore (onPanEnd v a)) = Some (- v)"
  by (simp add: onPanDelta_def onPanEnd_def call_def callsMade_def startMomentum_def)

text \<open>
  Claim C7. In frozen mode the freeze toggle calls \<^verbatim>\<open>stopMomentum\<close>,
  \<^verbatim>\<open>setViewPortCursor(0)\<close> and \<^verbatim>\<open>setFrozen(false)\<close>: afterwards the view is live, the
  cursor is 0 and no momentum scroll is in flight. In live mode it calls \<^verbatim>\<open>stopMomentum\<close>
  and \<^verbatim>\<open>setFrozen(true)\<close>: afterwards the view is frozen, with the cursor where it was.
\<close>

theorem onToggleFrozen_calls:
  "(getFrozen (dataStore a) \<longrightarrow>
      callsMade a (onToggleFrozen a) = [StopMomentum, SetViewPortCursor 0, SetFrozen False]
      \<and> cursor (dataStore (onToggleFrozen a)) = 0
      \<and> \<not> frozen (dataStore (onToggleFrozen a))
      \<and> momentum (dataStore (onToggleFrozen a)) = None)
   \<and> (\<not> getFrozen (dataStore a) \<longrightarrow>
      callsMade a (onToggleFrozen a) = [StopMomentum, SetFrozen True]
      \<and> frozen (dataStore (onToggleFrozen a))
      \<and> momentum (dataStore (onToggleFrozen a)) = None
      \<and> cursor (dataStore (onToggleFrozen a)) = cursor (dataStore a))"
  by (simp add: onToggleFrozen_def Let_def call_def callsMade_def getFrozen_def stopMomentum_def
      setFrozen_def setViewPortCursor_def)

theorem onToggleFrozen_calls_witness:
  "getFrozen (dataStore frozenApp)
   \<and> callsMade frozenApp (onToggleFrozen frozenApp) = [StopMomentum, SetViewPortCursor 0, SetFrozen False]
   \<and> cursor (dataStore (onToggleFrozen frozenApp)) = 0
   \<and> \<not> frozen (dataStore (onToggleFrozen frozenApp))
   \<and> momentum (dataStore (onToggleFrozen frozenApp)) = None
   \<and> \<not> getFrozen (dataStore (initApp 5 5))
   \<and> callsMade (initApp 5 5) (onToggleFrozen (initApp 5 5)) = [StopMomentum, SetFrozen True]
   \<and> frozen (dataStore (onToggleFrozen (initApp 5 5)))
   \<and> cursor (dataStore (onToggleFrozen (initApp 5 5))) = 0"
  using onToggleFrozen_calls [of frozenApp] onToggleFrozen_calls [of "initApp 5 5"]
  by (simp add: frozenApp_def frozenStore_def getFrozen_def initApp_def initStore_def
      setSeries_def appendAll_def appendRow_def setFrozen_def setViewPortCursor_def
      maxCursor_def retainedCount_def startMomentum_def js_def)

section \<open>The serial read loop\<close>

lemma indexOfNewline_none: "10 \<notin> set b \<Longrightarrow> indexOfNewline b = None"
  by (simp add: indexOfNewline_def)

lemma takeWhile_to_newline: "10 \<notin> set b \<Longrightarrow> takeWhile (\<lambda>c. c \<noteq> 10) (b @ 10 # cs) = b"
  by (induction b) auto

lemma indexOfNewline_at: "10 \<notin> set b \<Longrightarrow> indexOfNewline (b @ 10 # cs) = Some (length b)"
  by (simp add: indexOfNewline_def takeWhile_to_newline)

lemma drainLines_returning:
  "10 \<notin> set b \<Longrightarrow>
   drainLines (Some (returning g)) (b @ v) h =
     Reading (pendingFrom b v) (deliver g h (map stripTrailingCR (segmentsFrom b v)))"
proof (induction v arbitrary: b h)
  case Nil
  then show ?case
    by (subst drainLines.simps) (simp add: indexOfNewline_none deliver_def)
next
  case (Cons c cs)
  show ?case
  proof (cases "c = 10")
    case True
    have "drainLines (Some (returning g)) (b @ c # cs) h =
            drainLines (Some (returning g)) ([] @ cs) (g (stripTrailingCR b) h)"
      using Cons.prems True
      by (subst drainLines.simps) (simp add: indexOfNewline_at returning_def Let_def)
    also have "\<dots> = Reading (pendingFrom [] cs)
        (deliver g (g (stripTrailingCR b) h) (map stripTrailingCR (segmentsFrom [] cs)))"
      by (rule Cons.IH) simp
    finally show ?thesis using True by (simp add: deliver_def)
  next
    case False
    have "drainLines (Some (returning g)) ((b @ [c]) @ cs) h =
            Reading (pendingFrom (b @ [c]) cs)
              (deliver g h (map stripTrailingCR (segmentsFrom (b @ [c]) cs)))"
      by (rule Cons.IH) (use Cons.prems False in auto)
    then show ?thesis using False by simp
  qed
qed

lemma pendingFrom_no_newline: "10 \<notin> set b \<Longrightarrow> 10 \<notin> set (pendingFrom b v)"
  by (induction v arbitrary: b) auto

lemma segmentsFrom_append:
  "segmentsFrom b (v @ w) = segmentsFrom b v @ segmentsFrom (pendingFrom b v) w"
  by (induction v arbitrary: b) auto

lemma pendingFrom_append:
  "pendingFrom b (v @ w) = pendingFrom (pendingFrom b v) w"
  by (induction v arbitrary: b) auto

lemma deliver_append: "deliver g h (xs @ ys) = deliver g (deliver g h xs) ys"
  by (simp add: deliver_def)

lemma readChunk_returning:
  "10 \<notin> set b \<Longrightarrow>
   readChunk (Some (returning g)) (Reading b h) v =
     Reading (pendingFrom b v) (deliver g h (map stripTrailingCR (segmentsFrom b v)))"
  by (cases "v = []") (simp_all add: readChunk_def drainLines_returning deliver_def)

lemma foldl_readChunk_returning:
  "10 \<notin> set b \<Longrightarrow>
   foldl (readChunk (Some (returning g))) (Reading b h) chunks =
     Reading (pendingFrom b (concat chunks))
       (deliver g h (map stripTrailingCR (segmentsFrom b (concat chunks))))"
proof (induction chunks arbitrary: b h)
  case Nil
  then show ?case by (simp add: deliver_def)
next
  case (Cons v chunks)
  have "foldl (readChunk (Some (returning g))) (Reading b h) (v # chunks) =
          foldl (readChunk (Some (returning g)))
            (Reading (pendingFrom b v) (deliver g h (map stripTrailingCR (segmentsFrom b v)))) chunks"
    using Cons.prems by (simp add: readChunk_returning)
  also have "\<dots> = Reading (pendingFrom (pendingFrom b v) (concat chunks))
      (deliver g (deliver g h (map stripTrailingCR (segmentsFrom b v)))
         (map stripTrailingCR (segmentsFrom (pendingFrom b v) (concat chunks))))"
    by (rule Cons.IH) (simp add: pendingFrom_no_newline Cons.prems)
  finally show ?case
    by (simp add: segmentsFrom_append pendingFrom_append deliver_append)
qed

lemma segments_pending_concat:
  "concat (map (\<lambda>l. l @ [10]) (segmentsFrom b s)) @ pendingFrom b s = b @ s"
  by (induction s arbitrary: b) auto

lemma segmentsFrom_no_newline: "10 \<notin> set b \<Longrightarrow> \<forall>l\<in>set (segmentsFrom b s). 10 \<notin> set l"
proof (induction s arbitrary: b)
  case Nil
  show ?case by simp
next
  case (Cons c cs)
  show ?case
  proof (cases "c = 10")
    case True
    have "\<forall>l\<in>set (segmentsFrom [] cs). 10 \<notin> set l"
      by (rule Cons.IH) simp
    then show ?thesis using True Cons.prems by simp
  next
    case False
    have "\<forall>l\<in>set (segmentsFrom (b @ [c]) cs). 10 \<notin> set l"
      by (rule Cons.IH) (use False Cons.prems in auto)
    then show ?thesis using False by simp
  qed
qed

text \<open>
  Claim C10. With a handler registered that returns normally, after any chunks the read
  loop has invoked the handler once for each newline-terminated segment of the decoded stream, in order, on
  the segment without its line feed and without one trailing carriage return; the buffer
  holds the characters after the last line feed, which have not been delivered. The
  segments, each followed by a line feed, and the buffer make up the stream, and neither
  a segment nor the buffer contains a line feed.
\<close>

theorem readLoop_lines:
  "readLoop (Some (returning g)) chunks h =
     Reading (pending (concat chunks))
       (deliver g h (map stripTrailingCR (segments (concat chunks))))
   \<and> concat (map (\<lambda>l. l @ [10]) (segments (concat chunks))) @ pending (concat chunks)
       = concat chunks
   \<and> 10 \<notin> set (pending (concat chunks))
   \<and> (\<forall>l\<in>set (segments (concat chunks)). 10 \<notin> set l)"
proof -
  have "readLoop (Some (returning g)) chunks h =
          Reading (pending (concat chunks))
            (deliver g h (map stripTrailingCR (segments (concat chunks))))"
    unfolding readLoop_def pending_def segments_def
    by (rule foldl_readChunk_returning) simp
  moreover have "concat (map (\<lambda>l. l @ [10]) (segments (concat chunks))) @ pending (concat chunks)
      = concat chunks"
    using segments_pending_concat [of "[]" "concat chunks"]
    by (simp add: pending_def segments_def)
  moreover have "10 \<notin> set (pending (concat chunks))"
    unfolding pending_def by (rule pendingFrom_no_newline) simp
  moreover have "\<forall>l\<in>set (segments (concat chunks)). 10 \<notin> set l"
    unfolding segments_def by (rule segmentsFrom_no_newline) simp
  ultimately show ?thesis by simp
qed

theorem readLoop_lines_witness:
  "readLoop (Some (returning (\<lambda>l h. h @ [l])))
     [js ''1,2'', [13], [10, 51], [], js '',4'', [13, 13, 10, 10], js ''5''] []
   = Reading (js ''5'') [js ''1,2'', js ''3,4'' @ [13], []]"
  using readLoop_lines [of "\<lambda>l h. h @ [l]"
      "[js ''1,2'', [13], [10, 51], [], js '',4'', [13, 13, 10, 10], js ''5'']" "[]"]
  by (simp add: pending_def segments_def deliver_def stripTrailingCR_def js_def)

section \<open>The ring buffer\<close>

lemma write_column_same:
  "length bs = length r \<Longrightarrow> \<forall>b\<in>set bs. w < length b \<Longrightarrow>
   map (\<lambda>b. b ! w) (map2 (\<lambda>b v. b[w := v]) bs r) = r"
  by (induction bs r rule: list_induct2) auto

lemma write_column_other:
  "length bs = length r \<Longrightarrow> j \<noteq> w \<Longrightarrow>
   map (\<lambda>b. b ! j) (map2 (\<lambda>b v. b[w := v]) bs r) = map (\<lambda>b. b ! j) bs"
  by (induction bs r rule: list_induct2) auto

lemma write_column_lengths:
  "length bs = length r \<Longrightarrow> \<forall>b\<in>set bs. length b = C \<Longrightarrow>
   \<forall>b\<in>set (map2 (\<lambda>b v. b[w := v]) bs r). length b = C"
  by (induction bs r rule: list_induct2) auto

lemma slot_shift:
  fixes C :: nat
  assumes "k < C"
  shows "((w + 1) mod C + C - Suc k) mod C = (w + C - k) mod C"
proof -
  have "(w + 1) mod C + C - Suc k = (w + 1) mod C + (C - Suc k)"
    using assms by arith
  then have "((w + 1) mod C + C - Suc k) mod C = ((w + 1) mod C + (C - Suc k)) mod C"
    by (rule arg_cong)
  also have "\<dots> = ((w + 1) + (C - Suc k)) mod C"
    by (rule mod_add_left_eq)
  also have "(w + 1) + (C - Suc k) = w + C - k"
    using assms by arith
  finally show ?thesis .
qed

lemma slot_distinct:
  fixes C :: nat
  assumes "w < C" "1 \<le> k" "k < C"
  shows "(w + C - k) mod C \<noteq> w"
proof (cases "k \<le> w")
  case True
  then have "w + C - k = (w - k) + C" by arith
  then have "(w + C - k) mod C = (w - k) mod C" by simp
  also have "\<dots> = w - k" using assms by simp
  finally show ?thesis using assms True by arith
next
  case False
  then have "w + C - k < C" using assms by arith
  then have "(w + C - k) mod C = w + C - k" by simp
  then show ?thesis using assms False by arith
qed

lemma slot_newest:
  fixes C :: nat
  assumes "w < C"
  shows "((w + 1) mod C + C - Suc 0) mod C = w"
proof -
  have "((w + 1) mod C + C - Suc 0) mod C = (w + C - 0) mod C"
    using assms slot_shift [of 0 C w] by simp
  then show ?thesis using assms by simp
qed


lemma ringInv_init: "ringInv (setSeries names (initStore c w)) []"
  by (simp add: ringInv_def setSeries_def initStore_def)

lemma setSeries_init_fields:
  "seriesNames (setSeries names (initStore c w)) = names
   \<and> capacity (setSeries names (initStore c w)) = max 1 c"
  by (simp add: setSeries_def initStore_def)

lemma appendRow_fields:
  "seriesNames (appendRow r s) = seriesNames s \<and> capacity (appendRow r s) = capacity s"
  by (simp add: appendRow_def)

lemma appendRow_dropped: "length r \<noteq> length (seriesNames s) \<Longrightarrow> appendRow r s = s"
  by (simp add: appendRow_def)

lemma ringInv_appendRow:
  assumes inv: "ringInv s acc" and len: "length r = length (seriesNames s)"
  shows "ringInv (appendRow r s) (acc @ [r])"
proof -
  let ?C = "capacity s"
  let ?T = "totalWritten s"
  let ?w = "writeCursor s"
  let ?s' = "appendRow r s"
  from inv have C: "0 < ?C" and nb: "length (buffers s) = length r"
    and bl: "\<forall>b\<in>set (buffers s). length b = ?C" and w: "?w = ?T mod ?C"
    and T: "?T = length acc"
    and rows: "\<And>g. oldestIndex s \<le> g \<Longrightarrow> g < ?T \<Longrightarrow> rowAt s g = acc ! g"
    using len by (simp_all add: ringInv_def)
  have wC: "?w < ?C" using w C by simp
  have s': "buffers ?s' = map2 (\<lambda>b v. b[?w := v]) (buffers s) r"
    "writeCursor ?s' = (?w + 1) mod ?C" "totalWritten ?s' = ?T + 1" "capacity ?s' = ?C"
    "seriesNames ?s' = seriesNames s"
    using len by (simp_all add: appendRow_def)
  have bw: "\<forall>b\<in>set (buffers s). ?w < length b" using bl wC by simp
  have "rowAt ?s' g = (acc @ [r]) ! g"
    if lo: "oldestIndex ?s' \<le> g" and hi: "g < totalWritten ?s'" for g
  proof (cases "g = ?T")
    case True
    have "slotOf ?s' g = ?w"
      using True wC slot_newest [of ?w ?C] by (simp add: slotOf_def s')
    then have "rowAt ?s' g = r"
      using write_column_same [OF nb bw] by (simp add: rowAt_def s')
    then show ?thesis using True T by simp
  next
    case False
    then have gT: "g < ?T" using hi s' by simp
    have k: "1 \<le> ?T - g" "?T - g < ?C"
      using gT lo by (auto simp: oldestIndex_def retainedCount_def s' min_def split: if_splits)
    have old: "oldestIndex s \<le> g"
      using lo by (auto simp: oldestIndex_def retainedCount_def s' min_def split: if_splits)
    have "Suc ?T - g = Suc (?T - g)" using gT by simp
    then have slot: "slotOf ?s' g = slotOf s g"
      using slot_shift [OF k(2), of ?w] by (simp add: slotOf_def s')
    have "slotOf s g \<noteq> ?w"
      using slot_distinct [OF wC k] by (simp add: slotOf_def)
    then have "rowAt ?s' g = rowAt s g"
      using write_column_other [OF nb, of "slotOf s g" ?w] slot by (simp add: rowAt_def s')
    then show ?thesis using rows [OF old gT] gT T by (simp add: nth_append)
  qed
  moreover have "\<forall>b\<in>set (buffers ?s'). length b = capacity ?s'"
    using write_column_lengths [OF nb bl] by (simp add: s')
  moreover have "length (buffers ?s') = length (seriesNames ?s')"
    using nb len by (simp add: s')
  moreover have "writeCursor ?s' = totalWritten ?s' mod capacity ?s'"
    using w by (simp add: s' mod_Suc_eq)
  ultimately show ?thesis
    using C T by (simp add: ringInv_def s')
qed

lemma ringInv_appendAll:
  "ringInv s acc \<Longrightarrow>
   ringInv (appendAll rows s) (acc @ filter (\<lambda>r. length r = length (seriesNames s)) rows)
   \<and> seriesNames (appendAll rows s) = seriesNames s
   \<and> capacity (appendAll rows s) = capacity s"
proof (induction rows arbitrary: s acc)
  case Nil
  then show ?case by (simp add: appendAll_def)
next
  case (Cons r rows)
  show ?case
  proof (cases "length r = length (seriesNames s)")
    case True
    have "ringInv (appendRow r s) (acc @ [r])"
      using Cons.prems True by (rule ringInv_appendRow)
    from Cons.IH [OF this] show ?thesis
      using True by (simp add: appendAll_def appendRow_fields)
  next
    case False
    then have "appendRow r s = s" by (rule appendRow_dropped)
    then show ?thesis
      using Cons.IH [OF Cons.prems] False by (simp add: appendAll_def)
  qed
qed


lemma nth_upt_drop: "map ((!) xs) [i..<length xs] = drop i xs"
proof -
  have "drop i (map ((!) xs) [0..<length xs]) = map ((!) xs) [i..<length xs]"
    by (simp add: drop_map)
  then show ?thesis by (simp add: map_nth)
qed

lemma ringInv_retained:
  assumes "ringInv s acc"
  shows "retainedRows s = map (\<lambda>g. (g, acc ! g)) [oldestIndex s ..< length acc]"
    and "ch < length (seriesNames s) \<Longrightarrow>
         channelRows s ch = map (\<lambda>r. r ! ch) (drop (oldestIndex s) acc)"
proof -
  from assms have T: "totalWritten s = length acc"
    and nb: "length (buffers s) = length (seriesNames s)"
    and rows: "\<And>g. oldestIndex s \<le> g \<Longrightarrow> g < length acc \<Longrightarrow> rowAt s g = acc ! g"
    by (simp_all add: ringInv_def)
  show "retainedRows s = map (\<lambda>g. (g, acc ! g)) [oldestIndex s ..< length acc]"
    using rows by (simp add: retainedRows_def T)
  assume ch: "ch < length (seriesNames s)"
  have "channelRows s ch = map (\<lambda>g. rowAt s g ! ch) [oldestIndex s ..< length acc]"
    using ch nb by (simp add: channelRows_def rowAt_def T)
  also have "\<dots> = map (\<lambda>g. acc ! g ! ch) [oldestIndex s ..< length acc]"
    using rows by simp
  also have "\<dots> = map (\<lambda>r. r ! ch) (map ((!) acc) [oldestIndex s ..< length acc])"
    by simp
  finally show "channelRows s ch = map (\<lambda>r. r ! ch) (drop (oldestIndex s) acc)"
    by (simp only: nth_upt_drop)
qed

text \<open>
  Claim C2. Start from a store whose channels have just been set and that holds no row,
  and make any sequence of \<^verbatim>\<open>append\<close> calls. Let \<open>T\<close> be the number of rows written (the rows of the
  right length; the others are dropped) and \<open>C\<close> the capacity. Then the store retains
  \<open>min T C\<close> rows, in every channel; they are the rows with the global indices from
  \<open>T - min T C\<close> up to \<open>T - 1\<close>, that is the last \<open>min T C\<close> rows written, in order; and the
  oldest retained index is \<open>max 0 (T - C)\<close>. As the sequence is arbitrary, this holds
  after each call.
\<close>

theorem appendAll_retains_latest:
  "let s = appendAll rows (setSeries names (initStore c w));
             accepted = filter (\<lambda>r. length r = length names) rows;
             T = length accepted;
             C = capacity s
         in totalWritten s = T
            \<and> C = max 1 c
            \<and> length (retainedRows s) = min T C
            \<and> retainedRows s = map (\<lambda>g. (g, accepted ! g)) [T - min T C ..< T]
            \<and> map snd (retainedRows s) = drop (T - min T C) accepted
            \<and> (\<forall>ch<length names.
                  channelRows s ch = map (\<lambda>r. r ! ch) (drop (T - min T C) accepted)
                  \<and> length (channelRows s ch) = min T C)
            \<and> int (oldestIndex s) = max 0 (int T - int C)"
proof -
  let ?start = "setSeries names (initStore c w)"
  let ?s = "appendAll rows ?start"
  let ?acc = "filter (\<lambda>r. length r = length names) rows"
  have s0: "seriesNames ?start = names" "capacity ?start = max 1 c"
    using setSeries_init_fields [of names c w] by simp_all
  have "ringInv ?start []" by (rule ringInv_init)
  from ringInv_appendAll [OF this, of rows]
  have inv: "ringInv ?s ?acc" and names: "seriesNames ?s = names" and cap: "capacity ?s = max 1 c"
    by (simp_all add: s0)
  from inv have T: "totalWritten ?s = length ?acc" by (simp add: ringInv_def)
  have old: "oldestIndex ?s = length ?acc - min (length ?acc) (max 1 c)"
    by (simp add: oldestIndex_def retainedCount_def T cap)
  have rr: "retainedRows ?s = map (\<lambda>g. (g, ?acc ! g)) [oldestIndex ?s ..< length ?acc]"
    using inv by (rule ringInv_retained(1))
  have snd_rr: "map snd (retainedRows ?s) = drop (oldestIndex ?s) ?acc"
  proof -
    have "map snd (retainedRows ?s) = map ((!) ?acc) [oldestIndex ?s ..< length ?acc]"
      by (simp add: rr comp_def)
    then show ?thesis by (simp only: nth_upt_drop)
  qed
  have chans: "channelRows ?s ch = map (\<lambda>r. r ! ch) (drop (oldestIndex ?s) ?acc)"
    if "ch < length names" for ch
    using ringInv_retained(2) [OF inv] that names by simp
  have len_rr: "length (retainedRows ?s) = min (length ?acc) (max 1 c)"
    by (simp add: rr old)
  have len_ch: "length (channelRows ?s ch) = min (length ?acc) (max 1 c)"
    if "ch < length names" for ch
    using chans [OF that] by (simp add: old)
  have oldest: "int (oldestIndex ?s) = max 0 (int (length ?acc) - int (max 1 c))"
    by (simp add: old min_def max_def)
  show ?thesis
    unfolding Let_def
    using T cap len_rr rr snd_rr chans len_ch oldest by (simp add: old)
qed

theorem appendAll_retains_latest_witness:
  "retainedRows (appendAll
        [[Finite 1], [Finite 2], [Finite 3], [Finite 7, Finite 8], [Finite 4], [Finite 5], [Finite 6]]
        (setSeries [js ''a''] (initStore 5 5)))
      = [(1, [Finite 2]), (2, [Finite 3]), (3, [Finite 4]), (4, [Finite 5]), (5, [Finite 6])]
   \<and> channelRows (appendAll
        [[Finite 1], [Finite 2], [Finite 3], [Finite 7, Finite 8], [Finite 4], [Finite 5], [Finite 6]]
        (setSeries [js ''a''] (initStore 5 5))) 0
      = [Finite 2, Finite 3, Finite 4, Finite 5, Finite 6]"
  using appendAll_retains_latest [where names = "[js ''a'']" and c = 5 and w = 5 and rows =
      "[[Finite 1], [Finite 2], [Finite 3], [Finite 7, Finite 8], [Finite 4], [Finite 5], [Finite 6]]"]
  by (simp add: Let_def upt_rec)

section \<open>The UTF-8 encoder\<close>

lemma split3: "(n::nat) = n div 4096 * 4096 + (n div 64) mod 64 * 64 + n mod 64"
proof -
  define a where "a = n div 64"
  define b where "b = a div 64"
  define y where "y = a mod 64"
  define z where "z = n mod 64"
  have n: "n = a * 64 + z" unfolding a_def z_def by simp
  have a: "a = b * 64 + y" unfolding b_def y_def by simp
  have b: "n div 4096 = b" unfolding b_def a_def by (simp add: div_mult2_eq)
  have "a * 64 + z = (b * 64 + y) * 64 + z" by (simp only: a [symmetric])
  also have "\<dots> = b * 4096 + y * 64 + z" by (simp add: algebra_simps)
  finally have "n = b * 4096 + y * 64 + z" using n by simp
  then show ?thesis unfolding b a_def [symmetric] y_def [symmetric] z_def [symmetric] by simp
qed

lemma split4:
  "(n::nat) = n div 262144 * 262144 + (n div 4096) mod 64 * 4096 + (n div 64) mod 64 * 64 + n mod 64"
proof -
  define m where "m = n div 64"
  have m: "m = m div 4096 * 4096 + (m div 64) mod 64 * 64 + m mod 64" by (rule split3)
  have n: "n = m * 64 + n mod 64" unfolding m_def by simp
  have d1: "n div 262144 = m div 4096" unfolding m_def by (simp add: div_mult2_eq)
  have d2: "n div 4096 = m div 64" unfolding m_def by (simp add: div_mult2_eq)
  define x where "x = m div 4096"
  define y where "y = (m div 64) mod 64"
  define z where "z = m mod 64"
  define t where "t = n mod 64"
  have "m * 64 + t = (x * 4096 + y * 64 + z) * 64 + t"
    using m unfolding x_def y_def z_def by simp
  also have "\<dots> = x * 262144 + y * 4096 + z * 64 + t" by (simp add: algebra_simps)
  finally have "n = x * 262144 + y * 4096 + z * 64 + t" using n unfolding t_def by simp
  then show ?thesis
    unfolding d1 d2 x_def y_def z_def t_def m_def .
qed


lemma decode1:
  assumes "cp < 128"
  shows "utf8Decode ([cp] @ rest) = map_option ((#) cp) (utf8Decode rest)"
  using assms by simp

lemma decode2:
  assumes "x < 32" "y < 64" "cp = x * 64 + y" "128 \<le> cp"
  shows "utf8Decode ([192 + x, 128 + y] @ rest) = map_option ((#) cp) (utf8Decode rest)"
  using assms by (simp add: isContinuation_def Let_def)

lemma decode3:
  assumes "x < 16" "y < 64" "z < 64" "cp = x * 4096 + y * 64 + z" "2048 \<le> cp"
    "isScalarValue cp"
  shows "utf8Decode ([224 + x, 128 + y, 128 + z] @ rest) = map_option ((#) cp) (utf8Decode rest)"
  using assms by (simp add: isContinuation_def Let_def)

lemma decode4:
  assumes "x < 8" "y < 64" "z < 64" "t < 64" "cp = x * 262144 + y * 4096 + z * 64 + t"
    "65536 \<le> cp" "isScalarValue cp"
  shows "utf8Decode ([240 + x, 128 + y, 128 + z, 128 + t] @ rest)
    = map_option ((#) cp) (utf8Decode rest)"
  using assms by (simp add: isContinuation_def Let_def)


lemma decode_encodeCodePoint:
  assumes "isScalarValue cp"
  shows "utf8Decode (encodeCodePoint cp @ rest) = map_option ((#) cp) (utf8Decode rest)"
proof -
  have top: "cp < 1114112" using assms by (simp add: isScalarValue_def)
  show ?thesis
  proof (cases "cp < 128")
    case True
    then show ?thesis using decode1 [OF True] by (simp add: encodeCodePoint_def)
  next
    case ge128: False
    show ?thesis
    proof (cases "cp < 2048")
      case True
      have x: "cp div 64 < 32" by (rule less_mult_imp_div_less) (use True in simp)
      have "encodeCodePoint cp = [192 + cp div 64, 128 + cp mod 64]"
        using ge128 True by (simp add: encodeCodePoint_def)
      moreover have "utf8Decode ([192 + cp div 64, 128 + cp mod 64] @ rest)
          = map_option ((#) cp) (utf8Decode rest)"
        by (rule decode2 [OF x]) (use ge128 in simp_all)
      ultimately show ?thesis by simp
    next
      case ge2048: False
      show ?thesis
      proof (cases "cp < 65536")
        case True
        have x: "cp div 4096 < 16" by (rule less_mult_imp_div_less) (use True in simp)
        have "encodeCodePoint cp = [224 + cp div 4096, 128 + (cp div 64) mod 64, 128 + cp mod 64]"
          using ge128 ge2048 True by (simp add: encodeCodePoint_def)
        moreover have "utf8Decode ([224 + cp div 4096, 128 + (cp div 64) mod 64, 128 + cp mod 64] @ rest)
            = map_option ((#) cp) (utf8Decode rest)"
        proof (rule decode3 [OF x])
          show "cp = cp div 4096 * 4096 + cp div 64 mod 64 * 64 + cp mod 64" by (rule split3)
        qed (use ge2048 assms in simp_all)
        ultimately show ?thesis by simp
      next
        case ge65536: False
        have x: "cp div 262144 < 8" by (rule less_mult_imp_div_less) (use top in simp)
        have "encodeCodePoint cp = [240 + cp div 262144, 128 + (cp div 4096) mod 64,
            128 + (cp div 64) mod 64, 128 + cp mod 64]"
          using ge128 ge2048 ge65536 by (simp add: encodeCodePoint_def)
        moreover have "utf8Decode ([240 + cp div 262144, 128 + (cp div 4096) mod 64,
            128 + (cp div 64) mod 64, 128 + cp mod 64] @ rest)
            = map_option ((#) cp) (utf8Decode rest)"
        proof (rule decode4 [OF x])
          show "cp = cp div 262144 * 262144 + cp div 4096 mod 64 * 4096 + cp div 64 mod 64 * 64
              + cp mod 64" by (rule split4)
        qed (use ge65536 assms in simp_all)
        ultimately show ?thesis by simp
      qed
    qed
  qed
qed

lemma bytes_bound:
  fixes x :: nat
  assumes "x < 32" "y < 64" "z < 64" "t < 64"
  shows "\<forall>b\<in>set [192 + x, 128 + y]. b < 256"
    and "\<forall>b\<in>set [224 + x, 128 + y, 128 + z]. b < 256"
    and "x < 8 \<Longrightarrow> \<forall>b\<in>set [240 + x, 128 + y, 128 + z, 128 + t]. b < 256"
  using assms by simp_all

lemma encodeCodePoint_bytes:
  assumes "isScalarValue cp"
  shows "\<forall>b\<in>set (encodeCodePoint cp). b < 256"
proof -
  have top: "cp < 1114112" using assms by (simp add: isScalarValue_def)
  have x4: "cp div 262144 < 8" by (rule less_mult_imp_div_less) (use top in simp)
  show ?thesis
  proof (cases "cp < 128")
    case True
    then show ?thesis by (simp add: encodeCodePoint_def)
  next
    case ge128: False
    show ?thesis
    proof (cases "cp < 2048")
      case True
      have x: "cp div 64 < 32" by (rule less_mult_imp_div_less) (use True in simp)
      have "encodeCodePoint cp = [192 + cp div 64, 128 + cp mod 64]"
        using ge128 True by (simp add: encodeCodePoint_def)
      moreover have "\<forall>b\<in>set [192 + cp div 64, 128 + cp mod 64]. b < 256"
        by (rule bytes_bound(1) [OF x, of _ 0 0]) simp_all
      ultimately show ?thesis by simp
    next
      case ge2048: False
      show ?thesis
      proof (cases "cp < 65536")
        case True
        have "cp div 4096 < 16" by (rule less_mult_imp_div_less) (use True in simp)
        then have x: "cp div 4096 < 32" by simp
        have "encodeCodePoint cp = [224 + cp div 4096, 128 + (cp div 64) mod 64, 128 + cp mod 64]"
          using ge128 ge2048 True by (simp add: encodeCodePoint_def)
        moreover have "\<forall>b\<in>set [224 + cp div 4096, 128 + (cp div 64) mod 64, 128 + cp mod 64].
            b < 256"
          by (rule bytes_bound(2) [OF x, of _ _ 0]) simp_all
        ultimately show ?thesis by simp
      next
        case ge65536: False
        have x: "cp div 262144 < 32" using x4 by simp
        have "encodeCodePoint cp = [240 + cp div 262144, 128 + (cp div 4096) mod 64,
            128 + (cp div 64) mod 64, 128 + cp mod 64]"
          using ge128 ge2048 ge65536 by (simp add: encodeCodePoint_def)
        moreover have "\<forall>b\<in>set [240 + cp div 262144, 128 + (cp div 4096) mod 64,
            128 + (cp div 64) mod 64, 128 + cp mod 64]. b < 256"
          by (rule bytes_bound(3) [OF x _ _ _ x4]) simp_all
        ultimately show ?thesis by simp
      qed
    qed
  qed
qed

lemma pair_scalar:
  assumes "isHighSurrogate c" "isLowSurrogate d"
  shows "isScalarValue (65536 + (c - 55296) * 1024 + (d - 56320))"
proof -
  have "c - 55296 \<le> 1023" "d - 56320 \<le> 1023"
    using assms unfolding isHighSurrogate_def isLowSurrogate_def by arith+
  then show ?thesis unfolding isScalarValue_def by arith
qed

lemma unit_scalar:
  assumes "u < 65536" "\<not> isHighSurrogate u" "\<not> isLowSurrogate u"
  shows "isScalarValue u"
  using assms unfolding isScalarValue_def isHighSurrogate_def isLowSurrogate_def by arith

lemma replacement_scalar: "isScalarValue 65533"
  by (simp add: isScalarValue_def)

lemma toCodePoints_scalar:
  "\<forall>u\<in>set s. u < 65536 \<Longrightarrow> \<forall>cp\<in>set (toCodePoints s). isScalarValue cp"
proof (induction s rule: toCodePoints.induct)
  case 1
  show ?case by simp
next
  case (2 c cs)
  have c: "c < 65536" and cs: "\<forall>u\<in>set cs. u < 65536" using "2.prems" by simp_all
  show ?case
  proof (cases "isHighSurrogate c")
    case True
    show ?thesis
    proof (cases cs)
      case Nil
      then show ?thesis using True by (simp add: replacement_scalar)
    next
      case (Cons d ds)
      show ?thesis
      proof (cases "isLowSurrogate d")
        case low: True
        have "\<forall>cp\<in>set (toCodePoints ds). isScalarValue cp"
          using "2.IH"(1) [OF True Cons low] cs Cons by simp
        then show ?thesis
          using True Cons low pair_scalar [OF True low] by simp
      next
        case notlow: False
        have "\<forall>cp\<in>set (toCodePoints cs). isScalarValue cp"
          using "2.IH"(2) [OF True Cons notlow] cs by simp
        then show ?thesis
          using True Cons notlow by (simp add: replacement_scalar)
      qed
    qed
  next
    case False
    show ?thesis
    proof (cases "isLowSurrogate c")
      case low: True
      have "\<forall>cp\<in>set (toCodePoints cs). isScalarValue cp"
        using "2.IH"(3) [OF False low] cs by simp
      then show ?thesis using False low by (simp add: replacement_scalar)
    next
      case notlow: False
      have "\<forall>cp\<in>set (toCodePoints cs). isScalarValue cp"
        using "2.IH"(4) [OF \<open>\<not> isHighSurrogate c\<close> notlow] cs by simp
      then show ?thesis
        using \<open>\<not> isHighSurrogate c\<close> notlow unit_scalar [OF c \<open>\<not> isHighSurrogate c\<close> notlow]
        by simp
    qed
  qed
qed

lemma decode_encode_points:
  "\<forall>cp\<in>set cps. isScalarValue cp \<Longrightarrow>
   utf8Decode (concat (map encodeCodePoint cps)) = Some cps"
  by (induction cps) (simp_all add: decode_encodeCodePoint)


lemma encode_utf8:
  assumes "\<forall>u\<in>set s. u < 65536"
  shows "utf8Decode (encode s) = Some (toCodePoints s)"
    and "\<forall>b\<in>set (encode s). b < 256"
proof -
  have sc: "\<forall>cp\<in>set (toCodePoints s). isScalarValue cp"
    using assms by (rule toCodePoints_scalar)
  then show "utf8Decode (encode s) = Some (toCodePoints s)"
    unfolding encode_def by (rule decode_encode_points)
  show "\<forall>b\<in>set (encode s). b < 256"
    using sc encodeCodePoint_bytes by (auto simp: encode_def)
qed

section \<open>The data connection\<close>

lemma serialConnect_returns: "\<exists>s'. serialConnect outcome closeThrows s = Inr s'"
  by (simp add: serialConnect_def Let_def)

lemma serialDisconnect_ok: "serialOk s \<Longrightarrow> serialOk (serialDisconnect closeThrows s)"
  by (auto simp: serialOk_def serialDisconnect_def Let_def)

lemma serialDisconnect_inactive:
  "serialOk s \<Longrightarrow> \<not> serialActive (serialDisconnect closeThrows s)"
  by (auto simp: serialOk_def serialActive_def serialDisconnect_def Let_def)

lemma serialDisconnect_released:
  "serialOk s \<Longrightarrow> released closeThrows (serialDisconnect closeThrows s)"
  by (auto simp: serialOk_def released_def serialDisconnect_def Let_def)

lemma serialConnect_ok:
  "serialOk s \<Longrightarrow> serialConnect outcome closeThrows s = Inr s' \<Longrightarrow> serialOk s'"
  by (cases outcome)
     (auto simp: serialOk_def serialConnect_def serialDisconnect_def Let_def split: if_splits)

lemma serialWrite_flags:
  "isConnected (snd (serialWrite outcome data s)) = isConnected s
   \<and> readLoopRunning (snd (serialWrite outcome data s)) = readLoopRunning s
   \<and> readerRef (snd (serialWrite outcome data s)) = readerRef s"
  by (auto simp: serialWrite_def Let_def split: writeOutcome.splits)

lemma connectSerial_latest:
  assumes "serialOk (serial c)"
  shows "serialOk (serial (snd (connectSerial (renderOf c) outcome closeThrows c)))"
    and "\<not> generatorIsRunning (snd (connectSerial (renderOf c) outcome closeThrows c))"
proof -
  obtain s' where s': "serialConnect outcome closeThrows (serial c) = Inr s'"
    using serialConnect_returns by blast
  then have ok: "serialOk s'" using assms serialConnect_ok by blast
  show "serialOk (serial (snd (connectSerial (renderOf c) outcome closeThrows c)))"
    using s' ok by (simp add: connectSerial_def Let_def generatorStop_def renderOf_def)
  show "\<not> generatorIsRunning (snd (connectSerial (renderOf c) outcome closeThrows c))"
    using s' by (simp add: connectSerial_def Let_def generatorStop_def renderOf_def)
qed

lemma connectGenerator_latest:
  assumes "serialOk (serial c)"
  shows "serialOk (serial (connectGenerator (renderOf c) outcome closeThrows c))"
    and "\<not> serialActive (serial (connectGenerator (renderOf c) outcome closeThrows c))"
    and "isConnected (serial c) \<Longrightarrow>
         released closeThrows (serial (connectGenerator (renderOf c) outcome closeThrows c))"
proof -
  let ?s = "if isConnected (serial c) then serialDisconnect closeThrows (serial c) else serial c"
  have eq: "serial (connectGenerator (renderOf c) outcome closeThrows c) = ?s"
    by (cases outcome) (simp_all add: connectGenerator_def Let_def dcSerialDisconnect_def renderOf_def)
  show "serialOk (serial (connectGenerator (renderOf c) outcome closeThrows c))"
    using assms serialDisconnect_ok by (simp add: eq)
  show "\<not> serialActive (serial (connectGenerator (renderOf c) outcome closeThrows c))"
    using assms serialDisconnect_inactive [OF assms, of closeThrows]
    by (auto simp: eq serialActive_def serialOk_def)
  show "released closeThrows (serial (connectGenerator (renderOf c) outcome closeThrows c))"
    if "isConnected (serial c)"
    using that serialDisconnect_released [OF assms] by (simp add: eq)
qed

lemma disconnect_latest:
  assumes "serialOk (serial c)"
  shows "serialOk (serial (disconnect (renderOf c) closeThrows c))"
    and "\<not> serialActive (serial (disconnect (renderOf c) closeThrows c))"
    and "\<not> generatorIsRunning (disconnect (renderOf c) closeThrows c)"
    and "connectionType (disconnect (renderOf c) closeThrows c) = None"
    and "isConnected (serial c) \<Longrightarrow>
         released closeThrows (serial (disconnect (renderOf c) closeThrows c))"
proof -
  let ?s = "if isConnected (serial c) then serialDisconnect closeThrows (serial c) else serial c"
  have eq: "serial (disconnect (renderOf c) closeThrows c) = ?s"
    by (simp add: disconnect_def Let_def dcSerialDisconnect_def renderOf_def generatorStop_def)
  show "serialOk (serial (disconnect (renderOf c) closeThrows c))"
    using assms serialDisconnect_ok by (simp add: eq)
  show "\<not> serialActive (serial (disconnect (renderOf c) closeThrows c))"
    using assms serialDisconnect_inactive [OF assms, of closeThrows]
    by (auto simp: eq serialActive_def serialOk_def)
  show "\<not> generatorIsRunning (disconnect (renderOf c) closeThrows c)"
    by (simp add: disconnect_def Let_def dcSerialDisconnect_def renderOf_def generatorStop_def)
  show "connectionType (disconnect (renderOf c) closeThrows c) = None"
    by (simp add: disconnect_def Let_def dcSerialDisconnect_def renderOf_def generatorStop_def)
  show "released closeThrows (serial (disconnect (renderOf c) closeThrows c))"
    if "isConnected (serial c)"
    using that serialDisconnect_released [OF assms] by (simp add: eq)
qed

lemma write_keeps:
  "serialOk (serial (snd (write_dc r outcome data c))) = serialOk (serial c)
   \<and> bothActive (snd (write_dc r outcome data c)) = bothActive c"
  using serialWrite_flags [of outcome data "serial c"]
  by (simp add: write_dc_def Let_def serialOk_def bothActive_def serialActive_def)

lemma applyOp_latest: "connOk c \<Longrightarrow> connOk (applyOp (renderOf c) c op)"
proof (cases op)
  case (ConnectSerial outcome closeThrows)
  assume "connOk c"
  then show ?thesis
    using ConnectSerial connectSerial_latest [of c outcome closeThrows]
    by (simp add: connOk_def bothActive_def)
next
  case (ConnectGenerator outcome closeThrows)
  assume "connOk c"
  then show ?thesis
    using ConnectGenerator connectGenerator_latest(1,2) [of c outcome closeThrows]
    by (simp add: connOk_def bothActive_def)
next
  case (Disconnect closeThrows)
  assume "connOk c"
  then show ?thesis
    using Disconnect disconnect_latest(1,2) [of c closeThrows]
    by (simp add: connOk_def bothActive_def)
next
  case (Write outcome data)
  assume "connOk c"
  then show ?thesis
    using Write write_keeps [of "renderOf c" outcome data c] by (simp add: connOk_def)
qed

lemma runLatest_ok: "connOk c \<Longrightarrow> connOk (runLatest ops c)"
  unfolding runLatest_def
  by (induction ops arbitrary: c) (simp_all add: applyOp_latest)

lemma init_ok: "connOk (initDataConnection supported)"
  by (simp add: connOk_def serialOk_def bothActive_def serialActive_def initDataConnection_def
      initSerial_def)

lemma serialConnect_split:
  "serialConnect outcome closeThrows s =
     Inr (serialConnectEnd outcome (serialConnectBegin closeThrows s))"
  by (cases outcome)
     (simp_all add: serialConnect_def serialConnectBegin_def serialConnectEnd_def
        serialDisconnect_def Let_def)

lemma connectSerial_split:
  "snd (connectSerial r outcome closeThrows c) =
     connectSerialEnd outcome (connectSerialBegin r closeThrows c)"
  by (simp add: connectSerial_def connectSerialBegin_def connectSerialEnd_def
      serialConnect_split Let_def)

text \<open>
  Claim C8, as amended. When the operations are run one after the other, each to
  completion and each through the callback of the latest render, the serial source and the
  generator are never both active. In every state so reached: \<^verbatim>\<open>connectSerial\<close> stops the
  generator if it is running before it calls \<^verbatim>\<open>serial.connect\<close>, and the generator is
  not running afterwards; \<^verbatim>\<open>connectGenerator\<close> disconnects the serial port if it is
  connected before it starts the generator, and afterwards the serial source is not active
  and a port that was connected has been let go of; \<^verbatim>\<open>disconnect\<close> disconnects the port
  if it is connected and stops the generator if it is running, after which no source is
  active and the connection type is \<^verbatim>\<open>null\<close>.
\<close>

theorem one_source_active_latest:
  "let c = runLatest ops (initDataConnection supported)
   in \<not> bothActive c
      \<and> callsSince c (snd (connectSerial (renderOf c) outcome closeThrows c)) =
          (if generatorIsRunning c then [GeneratorStop] else []) @ [SerialConnect]
      \<and> \<not> generatorIsRunning (snd (connectSerial (renderOf c) outcome closeThrows c))
      \<and> (isSupported (serial c) \<longrightarrow>
            serialActive (serial (snd (connectSerial (renderOf c) Opened closeThrows c))))
      \<and> callsSince c (connectGenerator (renderOf c) Started closeThrows c) =
          (if isConnected (serial c) then [SerialDisconnect] else [])
          @ [GeneratorSetConfig, GeneratorStart]
      \<and> generatorIsRunning (connectGenerator (renderOf c) Started closeThrows c)
      \<and> \<not> serialActive (serial (connectGenerator (renderOf c) start closeThrows c))
      \<and> (isConnected (serial c) \<longrightarrow>
            released closeThrows (serial (connectGenerator (renderOf c) start closeThrows c)))
      \<and> callsSince c (disconnect (renderOf c) closeThrows c) =
          (if isConnected (serial c) then [SerialDisconnect] else [])
          @ (if generatorIsRunning c then [GeneratorStop] else [])
      \<and> \<not> serialActive (serial (disconnect (renderOf c) closeThrows c))
      \<and> (isConnected (serial c) \<longrightarrow>
            released closeThrows (serial (disconnect (renderOf c) closeThrows c)))
      \<and> \<not> generatorIsRunning (disconnect (renderOf c) closeThrows c)
      \<and> \<not> stateIsConnected (disconnect (renderOf c) closeThrows c)
      \<and> connectionType (disconnect (renderOf c) closeThrows c) = None"
proof -
  define c where "c = runLatest ops (initDataConnection supported)"
  have ok: "connOk c" unfolding c_def using init_ok by (rule runLatest_ok)
  then have sok: "serialOk (serial c)" and one: "\<not> bothActive c"
    by (simp_all add: connOk_def)
  have cs: "callsSince c (snd (connectSerial (renderOf c) outcome closeThrows c)) =
      (if generatorIsRunning c then [GeneratorStop] else []) @ [SerialConnect]"
    by (auto simp: callsSince_def connectSerial_def Let_def generatorStop_def renderOf_def
        split: sum.splits)
  have opened: "serialActive (serial (snd (connectSerial (renderOf c) Opened closeThrows c)))"
    if "isSupported (serial c)"
    using that
    by (simp add: connectSerial_def serialConnect_def Let_def generatorStop_def renderOf_def
        serialActive_def)
  have cg: "callsSince c (connectGenerator (renderOf c) Started closeThrows c) =
      (if isConnected (serial c) then [SerialDisconnect] else [])
      @ [GeneratorSetConfig, GeneratorStart]"
    by (auto simp: callsSince_def connectGenerator_def Let_def dcSerialDisconnect_def renderOf_def)
  have started: "generatorIsRunning (connectGenerator (renderOf c) Started closeThrows c)"
    by (simp add: connectGenerator_def Let_def)
  have dc: "callsSince c (disconnect (renderOf c) closeThrows c) =
      (if isConnected (serial c) then [SerialDisconnect] else [])
      @ (if generatorIsRunning c then [GeneratorStop] else [])"
    by (auto simp: callsSince_def disconnect_def Let_def dcSerialDisconnect_def generatorStop_def
        renderOf_def)
  have off: "\<not> stateIsConnected (disconnect (renderOf c) closeThrows c)"
    using disconnect_latest(2,3) [OF sok, of closeThrows]
    by (simp add: stateIsConnected_def serialActive_def)
  show ?thesis
    unfolding Let_def c_def [symmetric]
    using one cs connectSerial_latest(2) [OF sok, of outcome closeThrows] opened cg started
      connectGenerator_latest(2,3) [OF sok, where outcome = start and closeThrows = closeThrows] dc
      disconnect_latest(2,3,4,5) [OF sok, of closeThrows] off
    by simp
qed

theorem one_source_active_latest_witness:
  "hookCalls (runLatest [ConnectGenerator Started False, ConnectSerial Opened False]
      (initDataConnection True)) = [GeneratorSetConfig, GeneratorStart, GeneratorStop, SerialConnect]
   \<and> serialActive (serial (runLatest [ConnectGenerator Started False, ConnectSerial Opened False]
      (initDataConnection True)))
   \<and> \<not> generatorIsRunning (runLatest [ConnectGenerator Started False, ConnectSerial Opened False]
      (initDataConnection True))
   \<and> \<not> bothActive (runLatest [ConnectGenerator Started False, ConnectSerial Opened False]
      (initDataConnection True))
   \<and> isSupported (serial (initDataConnection True))
   \<and> isConnected (serial connectedSerial)
   \<and> released False (serial (disconnect (renderOf connectedSerial) False connectedSerial))
   \<and> released False (serial (connectGenerator (renderOf connectedSerial) Started False connectedSerial))
   \<and> generatorIsRunning (connectGenerator (renderOf connectedSerial) Started False connectedSerial)"
proof -
  have run: "runLatest [ConnectSerial Opened False] (initDataConnection True) = connectedSerial"
    by (simp add: runLatest_def connectedSerial_def)
  have con: "isConnected (serial connectedSerial)"
    by (simp add: connectedSerial_def connectSerial_def serialConnect_def initDataConnection_def
        initSerial_def renderOf_def Let_def)
  have two: "hookCalls (runLatest [ConnectGenerator Started False, ConnectSerial Opened False]
        (initDataConnection True)) = [GeneratorSetConfig, GeneratorStart, GeneratorStop, SerialConnect]
     \<and> serialActive (serial (runLatest [ConnectGenerator Started False, ConnectSerial Opened False]
        (initDataConnection True)))
     \<and> \<not> generatorIsRunning (runLatest [ConnectGenerator Started False, ConnectSerial Opened False]
        (initDataConnection True))"
    by (simp add: runLatest_def connectGenerator_def connectSerial_def serialConnect_def
        initDataConnection_def initSerial_def generatorStop_def renderOf_def serialActive_def
        Let_def)
  have sup: "isSupported (serial (initDataConnection True))"
    by (simp add: initDataConnection_def initSerial_def)
  note first = one_source_active_latest
    [of "[ConnectGenerator Started False, ConnectSerial Opened False]" True Opened False Started]
  note second = one_source_active_latest
    [of "[ConnectSerial Opened False]" True Opened False Started, unfolded run Let_def]
  from first have "\<not> bothActive (runLatest [ConnectGenerator Started False, ConnectSerial Opened False]
      (initDataConnection True))"
    by (simp add: Let_def)
  moreover from second con
  have "released False (serial (disconnect (renderOf connectedSerial) False connectedSerial))"
    "released False (serial (connectGenerator (renderOf connectedSerial) Started False connectedSerial))"
    "generatorIsRunning (connectGenerator (renderOf connectedSerial) Started False connectedSerial)"
    by simp_all
  ultimately show ?thesis using two sup con by simp
qed

text \<open>
  The claim as it was stated fails for a callback of an earlier render. With the callbacks
  of the first render, \<^verbatim>\<open>connectGenerator\<close> and then \<^verbatim>\<open>connectSerial\<close> leave both sources
  active, since \<^verbatim>\<open>connectSerial\<close> still sees a generator that is not running; and
  \<^verbatim>\<open>connectSerial\<close> followed by \<^verbatim>\<open>disconnect\<close> leaves the serial source active, since
  \<^verbatim>\<open>disconnect\<close> still sees a port that is not connected. It also fails for operations
  that overlap: a \<^verbatim>\<open>connectGenerator\<close> run while \<^verbatim>\<open>connectSerial\<close> waits for the user to
  choose a port starts the generator, and the port then opens with the generator running.
\<close>

theorem one_source_active_counterexample:
  "bothActive
     (applyOp (renderOf (initDataConnection True))
        (applyOp (renderOf (initDataConnection True)) (initDataConnection True)
           (ConnectGenerator Started False))
        (ConnectSerial Opened False))
   \<and> serialActive (serial
        (disconnect (renderOf (initDataConnection True)) False
           (snd (connectSerial (renderOf (initDataConnection True)) Opened False
              (initDataConnection True)))))
   \<and> bothActive
        (connectSerialEnd Opened
           (connectGenerator
              (renderOf (connectSerialBegin (renderOf (initDataConnection True)) False
                 (initDataConnection True)))
              Started False
              (connectSerialBegin (renderOf (initDataConnection True)) False
                 (initDataConnection True))))"
  by (simp add: bothActive_def serialActive_def connectGenerator_def connectSerial_def
      serialConnect_def disconnect_def connectSerialBegin_def connectSerialEnd_def
      serialConnectBegin_def serialConnectEnd_def initDataConnection_def initSerial_def
      renderOf_def Let_def)

text \<open>
  Claim C9, as amended. \<^verbatim>\<open>write\<close> throws its error \<^verbatim>\<open>Serial port not connected\<close>, without
  giving anything to the writer, if and only if the connection type it reads is not
  \<^verbatim>\<open>serial\<close>, or the connected flag it reads is false, or there is no writer. Otherwise
  it gives the encoding of the data to the writer, unchanged, and throws exactly what the
  writer rejects with, if anything. The encoding is UTF-8: for a string of 16-bit code
  units the bytes are below 256 and read back, as UTF-8, as the code points of the string,
  which are scalar values.
\<close>

theorem write_not_connected:
  "((fst (write_dc r outcome data c) = Some (Error (js ''Serial port not connected''))
     \<and> writerCalls (serial (snd (write_dc r outcome data c))) = writerCalls (serial c))
    \<longleftrightarrow> notConnected r c)
   \<and> (\<not> notConnected r c \<longrightarrow>
        writerCalls (serial (snd (write_dc r outcome data c))) = writerCalls (serial c) @ [encode data]
        \<and> fst (write_dc r outcome data c) =
            (case outcome of Written \<Rightarrow> None | WriteRejected err \<Rightarrow> Some err))
   \<and> ((\<forall>u\<in>set data. u < 65536) \<longrightarrow>
        utf8Decode (encode data) = Some (toCodePoints data)
        \<and> (\<forall>cp\<in>set (toCodePoints data). isScalarValue cp)
        \<and> (\<forall>b\<in>set (encode data). b < 256))"
proof -
  have guard: "(fst (write_dc r outcome data c) = Some (Error (js ''Serial port not connected''))
     \<and> writerCalls (serial (snd (write_dc r outcome data c))) = writerCalls (serial c))
    \<longleftrightarrow> notConnected r c"
    by (auto simp: write_dc_def serialWrite_def notConnected_def Let_def split: writeOutcome.splits)
  have forward: "writerCalls (serial (snd (write_dc r outcome data c))) = writerCalls (serial c) @ [encode data]
        \<and> fst (write_dc r outcome data c) =
            (case outcome of Written \<Rightarrow> None | WriteRejected err \<Rightarrow> Some err)"
    if "\<not> notConnected r c"
    using that
    by (auto simp: write_dc_def serialWrite_def notConnected_def Let_def split: writeOutcome.splits)
  have utf8: "utf8Decode (encode data) = Some (toCodePoints data)
        \<and> (\<forall>cp\<in>set (toCodePoints data). isScalarValue cp)
        \<and> (\<forall>b\<in>set (encode data). b < 256)"
    if "\<forall>u\<in>set data. u < 65536"
    using encode_utf8 [OF that] toCodePoints_scalar [OF that] by simp
  show ?thesis using guard forward utf8 by blast
qed

theorem write_not_connected_witness:
  "\<not> notConnected (renderOf connectedSerial) connectedSerial
   \<and> list_all (\<lambda>u. u < 65536) (js ''ok'' @ [233, 8364, 55357, 56832, 55357, 10])
   \<and> fst (write_dc (renderOf connectedSerial) Written
        (js ''ok'' @ [233, 8364, 55357, 56832, 55357, 10]) connectedSerial) = None
   \<and> writerCalls (serial (snd (write_dc (renderOf connectedSerial) Written
        (js ''ok'' @ [233, 8364, 55357, 56832, 55357, 10]) connectedSerial))) =
       [[111, 107, 195, 169, 226, 130, 172, 240, 159, 152, 128, 239, 191, 189, 10]]
   \<and> utf8Decode [111, 107, 195, 169, 226, 130, 172, 240, 159, 152, 128, 239, 191, 189, 10] =
       Some [111, 107, 233, 8364, 128512, 65533, 10]
   \<and> notConnected (renderOf (initDataConnection True)) (initDataConnection True)
   \<and> fst (write_dc (renderOf (initDataConnection True)) Written (js ''ok'')
        (initDataConnection True)) = Some (Error (js ''Serial port not connected''))"
proof -
  let ?data = "js ''ok'' @ [233, 8364, 55357, 56832, 55357, 10]"
  have e: "encode ?data = [111, 107, 195, 169, 226, 130, 172, 240, 159, 152, 128, 239, 191, 189, 10]"
    by (simp add: encode_def encodeCodePoint_def isHighSurrogate_def isLowSurrogate_def js_def)
  have p: "toCodePoints ?data = [111, 107, 233, 8364, 128512, 65533, 10]"
    by (simp add: isHighSurrogate_def isLowSurrogate_def js_def)
  have u: "\<forall>u\<in>set ?data. u < 65536"
    by (simp add: js_def)
  have n: "\<not> notConnected (renderOf connectedSerial) connectedSerial"
    by (simp add: connectedSerial_def notConnected_def connectSerial_def serialConnect_def
        initDataConnection_def initSerial_def renderOf_def Let_def)
  have w0: "writerCalls (serial connectedSerial) = []"
    by (simp add: connectedSerial_def connectSerial_def serialConnect_def
        initDataConnection_def initSerial_def renderOf_def Let_def)
  have n0: "notConnected (renderOf (initDataConnection True)) (initDataConnection True)"
    by (simp add: notConnected_def initDataConnection_def renderOf_def)
  note sent = write_not_connected [of "renderOf connectedSerial" Written ?data connectedSerial]
  note refused = write_not_connected [of "renderOf (initDataConnection True)" Written "js ''ok''"
      "initDataConnection True"]
  from sent n have "fst (write_dc (renderOf connectedSerial) Written ?data connectedSerial) = None"
    and "writerCalls (serial (snd (write_dc (renderOf connectedSerial) Written ?data connectedSerial)))
      = writerCalls (serial connectedSerial) @ [encode ?data]"
    by simp_all
  moreover from sent u have "utf8Decode (encode ?data) = Some (toCodePoints ?data)"
    by blast
  moreover from refused n0
  have "fst (write_dc (renderOf (initDataConnection True)) Written (js ''ok'')
      (initDataConnection True)) = Some (Error (js ''Serial port not connected''))"
    by blast
  ultimately show ?thesis
    using n u n0 unfolding e p w0 by (simp add: list_all_iff)
qed

text \<open>
  The claim as it was stated fails when the writer itself rejects with an error of the
  same message: \<^verbatim>\<open>write\<close> then throws that message although the connection type is
  \<^verbatim>\<open>serial\<close>, the port is connected and there is a writer.
\<close>

theorem write_not_connected_counterexample:
  "\<not> notConnected (renderOf connectedSerial) connectedSerial
   \<and> fst (write_dc (renderOf connectedSerial)
        (WriteRejected (Error (js ''Serial port not connected''))) (js ''ok'') connectedSerial) =
       Some (Error (js ''Serial port not connected''))"
  by (simp add: connectedSerial_def notConnected_def write_dc_def serialWrite_def connectSerial_def
      serialConnect_def initDataConnection_def initSerial_def renderOf_def Let_def)

end
